theory Spec2Isabelle
  imports Complex_Main "HOL-Library.AList"
begin

section \<open>Verbosity to log level name (fixtures/daemons.py)\<close>

text \<open>
  \<^verbatim>\<open>HANDLED_LEVELS = {2: 'warning', 3: 'info', 4: 'debug', 5: 'trace', 6: 'garbage'}\<close>
  The dictionary is a finite map from integers to level names.
\<close>

definition HANDLED_LEVELS :: "int \<rightharpoonup> string" where
  "HANDLED_LEVELS =
     map_of [(2, ''warning''), (3, ''info''), (4, ''debug''), (5, ''trace''), (6, ''garbage'')]"

text \<open>
  \<^verbatim>\<open>return HANDLED_LEVELS.get(verbosity, HANDLED_LEVELS.get(verbosity > 6 and 6 or 2))\<close>
  The expression \<^verbatim>\<open>verbosity > 6 and 6 or 2\<close> is 6 when the comparison holds (6 is truthy) and 2
  otherwise. \<^verbatim>\<open>dict.get\<close> with one argument returns \<^verbatim>\<open>None\<close> for a missing key, so the
  result is an option.
\<close>

definition get_log_level_name :: "int \<Rightarrow> string option" where
  "get_log_level_name verbosity =
     (case HANDLED_LEVELS verbosity of
        Some name \<Rightarrow> Some name
      | None \<Rightarrow> HANDLED_LEVELS (if verbosity > 6 then 6 else 2))"


section \<open>Port probing readiness wait (SaltCliMinion / SaltCliMaster)\<close>

type_synonym port = nat

text \<open>
  Clock readings, timeouts and the sleep are in seconds, as exact rationals (the rounding
  of floating point arithmetic is left out); \<^verbatim>\<open>time.sleep(0.125)\<close> is \<open>1/8\<close>.
\<close>

type_synonym seconds = rat

text \<open>
  The number passed as \<^verbatim>\<open>timeout\<close> and the deadline computed from it: a finite number, or
  one of the floats \<^verbatim>\<open>inf\<close>, \<^verbatim>\<open>-inf\<close>, \<^verbatim>\<open>nan\<close>. \<open>num_add\<close> is \<^verbatim>\<open>time.time() + timeout\<close> and
  \<open>num_ge\<close> is \<^verbatim>\<open>time.time() >= until\<close>: nothing finite reaches \<^verbatim>\<open>inf\<close>, and every comparison
  with \<^verbatim>\<open>nan\<close> is false.
\<close>

datatype pynum = Finite rat | PosInf | NegInf | NaN

fun num_add :: "seconds \<Rightarrow> pynum \<Rightarrow> pynum" where
  "num_add c (Finite t) = Finite (c + t)"
| "num_add c PosInf = PosInf"
| "num_add c NegInf = NegInf"
| "num_add c NaN = NaN"

fun num_ge :: "seconds \<Rightarrow> pynum \<Rightarrow> bool" where
  "num_ge c (Finite u) = (u \<le> c)"
| "num_ge c PosInf = False"
| "num_ge c NegInf = True"
| "num_ge c NaN = False"

datatype error = KeyError | UnboundLocalError | OSError | OverflowError

datatype sock_state = SockOpen | SockClosed

text \<open>
  The environment of one call. \<open>connect_ex\<close> is the error indicator that
  \<^verbatim>\<open>sock.connect_ex(('localhost', port))\<close> returns when the attempt is begun at the given clock
  reading (0 means connected); \<open>connect_duration\<close> is the time in milliseconds that blocking
  attempt takes (the sockets are created without a timeout); \<open>shutdown_raises\<close> tells whether
  \<^verbatim>\<open>sock.shutdown(socket.SHUT_RDWR)\<close> on the connection to that port raises at that clock
  reading, as it does when the peer has reset the connection; \<open>is_alive\<close> is the liveness of
  the supervised process.
\<close>

record env =
  connect_ex :: "port \<Rightarrow> seconds \<Rightarrow> int"
  connect_duration :: "port \<Rightarrow> seconds \<Rightarrow> nat"
  shutdown_raises :: "port \<Rightarrow> seconds \<Rightarrow> bool"
  is_alive :: "seconds \<Rightarrow> bool"

text \<open>
  The state the call reads and changes: the clock read by \<^verbatim>\<open>time.time()\<close>, every socket
  object created so far (in creation order) with whether its descriptor is still open, and
  the log of connection attempts (port, clock reading at the attempt, error indicator).
\<close>

record world =
  clock :: seconds
  sockets :: "sock_state list"
  probes :: "(port \<times> seconds \<times> int) list"

text \<open>
  Creating the socket and resolving the name \<^verbatim>\<open>localhost\<close> are taken to succeed.
\<close>

definition socket_new :: "world \<Rightarrow> nat \<times> world" where
  "socket_new w = (length (sockets w), w\<lparr>sockets := sockets w @ [SockOpen]\<rparr>)"

text \<open>
  \<^verbatim>\<open>connect_ex\<close> raises \<^verbatim>\<open>OverflowError\<close> for a port above 65535, before any attempt is made;
  otherwise it blocks for the duration of the attempt and returns the error indicator.
\<close>

definition sock_connect_ex :: "env \<Rightarrow> port \<Rightarrow> world \<Rightarrow> (error + int) \<times> world" where
  "sock_connect_ex E p w =
     (if p > 65535 then (Inl OverflowError, w)
      else (Inr (connect_ex E p (clock w)),
            w\<lparr>clock := clock w + of_nat (connect_duration E p (clock w)) / 1000,
              probes := probes w @ [(p, clock w, connect_ex E p (clock w))]\<rparr>))"

definition sock_shutdown :: "env \<Rightarrow> port \<Rightarrow> world \<Rightarrow> error option" where
  "sock_shutdown E p w = (if shutdown_raises E p (clock w) then Some OSError else None)"

definition sock_close :: "nat \<Rightarrow> world \<Rightarrow> world" where
  "sock_close s w = w\<lparr>sockets := (sockets w)[s := SockClosed]\<rparr>"

text \<open>
  \<^verbatim>\<open>del sock\<close> removes the only reference to the socket object; the interpreter finalises
  the object at once, which closes its descriptor if it is still open.
\<close>

definition del_sock :: "nat \<Rightarrow> world \<Rightarrow> world" where
  "del_sock s w = w\<lparr>sockets := (sockets w)[s := SockClosed]\<rparr>"

definition sleep :: "seconds \<Rightarrow> world \<Rightarrow> world" where
  "sleep d w = w\<lparr>clock := clock w + d\<rparr>"

text \<open>
  The body of \<^verbatim>\<open>for port in set(check_ports)\<close>:
  \<^verbatim>\<open>
    sock = socket.socket(socket.AF_INET, socket.SOCK_STREAM)
    conn = sock.connect_ex(('localhost', port))
    if conn == 0:
        check_ports.remove(port)
        sock.shutdown(socket.SHUT_RDWR)
        sock.close()
    del sock
  \<close>
  The set \<open>check_ports\<close> is a list without duplicates. The result is the exception raised,
  if any, with the pending set and the state at that point: an exception leaves the body
  before \<^verbatim>\<open>sock.close()\<close> and \<^verbatim>\<open>del sock\<close>, with the socket still referenced by the frame
  that the exception carries.
\<close>

definition probe_port ::
  "env \<Rightarrow> port \<Rightarrow> port list \<times> world \<Rightarrow> error option \<times> port list \<times> world" where
  "probe_port E p cw =
     (let check_ports = fst cw;
          (sock, w1) = socket_new (snd cw)
      in case sock_connect_ex E p w1 of
           (Inl e, w2) \<Rightarrow> (Some e, check_ports, w2)
         | (Inr conn, w2) \<Rightarrow>
             if conn = 0 then
               (let check_ports' = removeAll p check_ports
                in case sock_shutdown E p w2 of
                     Some e \<Rightarrow> (Some e, check_ports', w2)
                   | None \<Rightarrow> (None, check_ports', del_sock sock (sock_close sock w2)))
             else (None, check_ports, del_sock sock w2))"

text \<open>The \<^verbatim>\<open>for\<close> loop over a copy of the pending set; an exception ends it.\<close>

fun probe_ports ::
  "env \<Rightarrow> port list \<Rightarrow> port list \<times> world \<Rightarrow> error option \<times> port list \<times> world" where
  "probe_ports E [] cw = (None, cw)"
| "probe_ports E (p # ps) cw =
     (case probe_port E p cw of
        (Some e, cw') \<Rightarrow> (Some e, cw')
      | (None, cw') \<Rightarrow> probe_ports E ps cw')"

text \<open>
  The \<^verbatim>\<open>while True\<close> loop. \<open>until\<close> is \<open>None\<close> while the local variable of that name is
  unbound; reading it then raises \<^verbatim>\<open>UnboundLocalError\<close>. The loop returns the value of
  \<open>connectable\<close> or the exception raised, with the pending set and the state it leaves.
  The loop need not end: the value \<open>None\<close> of the function stands for a call that never
  returns.
  \<^verbatim>\<open>
    while True:
        if not check_ports:
            connectable = True
            break
        if time.time() >= until:
            break
        for port in set(check_ports):
            ...
        time.sleep(0.125)
    return connectable
  \<close>
\<close>

partial_function (option) wait_loop ::
  "env \<Rightarrow> pynum option \<Rightarrow> port list \<Rightarrow> world \<Rightarrow> ((error + bool) \<times> port list \<times> world) option"
where
  "wait_loop E until check_ports w =
     (if check_ports = [] then Some (Inr True, check_ports, w)
      else case until of
             None \<Rightarrow> Some (Inl UnboundLocalError, check_ports, w)
           | Some u \<Rightarrow>
               if num_ge (clock w) u then Some (Inr False, check_ports, w)
               else (case probe_ports E check_ports (check_ports, w) of
                       (Some e, cw) \<Rightarrow> Some (Inl e, cw)
                     | (None, cw) \<Rightarrow> wait_loop E until (fst cw) (sleep (1/8) (snd cw))))"

declare wait_loop.simps [code]

text \<open>
  \<^verbatim>\<open>
    def wait_until_running(self, timeout=None):
        if timeout is not None:
            until = time.time() + timeout
        check_ports = set([...])
        connectable = False
        while True: ...
  \<close>
  The configuration is a dictionary; a missing key raises \<^verbatim>\<open>KeyError\<close>. The clock is read
  for \<open>until\<close> before the dictionary is; neither changes the state, so the two variants
  below look their ports up first and share the rest. \<open>connectable\<close> is false until the
  loop sets it, so the value returned is the one the loop leaves.
\<close>

type_synonym config = "string \<rightharpoonup> port"

definition ports_wait_until_running ::
  "env \<Rightarrow> port list \<Rightarrow> pynum option \<Rightarrow> world \<Rightarrow> ((error + bool) \<times> port list \<times> world) option"
where
  "ports_wait_until_running E ports timeout w =
     (let until = (case timeout of None \<Rightarrow> None | Some t \<Rightarrow> Some (num_add (clock w) t))
      in wait_loop E until (remdups ports) w)"

definition SaltCliMinion_wait_until_running ::
  "env \<Rightarrow> config \<Rightarrow> pynum option \<Rightarrow> world \<Rightarrow> ((error + bool) \<times> port list \<times> world) option"
where
  "SaltCliMinion_wait_until_running E cfg timeout w =
     (case cfg ''pytest_port'' of
        None \<Rightarrow> Some (Inl KeyError, [], w)
      | Some pytest_port \<Rightarrow> ports_wait_until_running E [pytest_port] timeout w)"

definition SaltCliMaster_wait_until_running ::
  "env \<Rightarrow> config \<Rightarrow> pynum option \<Rightarrow> world \<Rightarrow> ((error + bool) \<times> port list \<times> world) option"
where
  "SaltCliMaster_wait_until_running E cfg timeout w =
     (case cfg ''ret_port'' of
        None \<Rightarrow> Some (Inl KeyError, [], w)
      | Some ret_port \<Rightarrow>
     (case cfg ''publish_port'' of
        None \<Rightarrow> Some (Inl KeyError, [], w)
      | Some publish_port \<Rightarrow>
     (case cfg ''pytest_port'' of
        None \<Rightarrow> Some (Inl KeyError, [], w)
      | Some pytest_port \<Rightarrow>
          ports_wait_until_running E [ret_port, publish_port, pytest_port] timeout w)))"

text \<open>
  \<open>SaltCliMaster\<close> derives from \<open>SaltCliMinion\<close> and overrides the method: which of the two
  bodies runs is decided by the class of the object.
\<close>

datatype cli_daemon = SaltCliMinion | SaltCliMaster

definition wait_until_running ::
  "cli_daemon \<Rightarrow> env \<Rightarrow> config \<Rightarrow> pynum option \<Rightarrow> world
     \<Rightarrow> ((error + bool) \<times> port list \<times> world) option"
where
  "wait_until_running d E cfg timeout w =
     (case d of
        SaltCliMinion \<Rightarrow> SaltCliMinion_wait_until_running E cfg timeout w
      | SaltCliMaster \<Rightarrow> SaltCliMaster_wait_until_running E cfg timeout w)"


text \<open>
  Vocabulary for the properties below: the ports a daemon of each class probes, when its
  configuration has them all (the elements of its \<^verbatim>\<open>set([...])\<close>, in the order written);
  the connection attempts logged between two states; and the ports among them whose
  attempt returned 0.
\<close>

definition configured_ports :: "cli_daemon \<Rightarrow> config \<Rightarrow> port list option" where
  "configured_ports d cfg =
     (case d of
        SaltCliMinion \<Rightarrow>
          (case cfg ''pytest_port'' of None \<Rightarrow> None | Some p \<Rightarrow> Some [p])
      | SaltCliMaster \<Rightarrow>
          (case (cfg ''ret_port'', cfg ''publish_port'', cfg ''pytest_port'') of
             (Some a, Some b, Some p) \<Rightarrow> Some [a, b, p]
           | _ \<Rightarrow> None))"

definition new_probes :: "world \<Rightarrow> world \<Rightarrow> (port \<times> seconds \<times> int) list" where
  "new_probes w w' = drop (length (probes w)) (probes w')"

definition succeeded :: "(port \<times> seconds \<times> int) list \<Rightarrow> port set" where
  "succeeded new = set (map fst (filter (\<lambda>(p, t, c). c = 0) new))"

text \<open>What holds whenever the loop ends, for every deadline, bound or not.\<close>

definition loop_inv ::
  "env \<Rightarrow> pynum option \<Rightarrow> port list \<Rightarrow> world \<Rightarrow> (error + bool) \<times> port list \<times> world \<Rightarrow> bool"
where
  "loop_inv E until cp w res =
     (case res of (r, cp', w') \<Rightarrow>
           probes w' = probes w @ new_probes w w'
           \<and> set cp' = set cp - succeeded (new_probes w w')
           \<and> length cp' \<le> length cp
           \<and> clock w \<le> clock w'
           \<and> (\<forall>(q, t, c) \<in> set (new_probes w w').
                 q \<in> set cp \<and> q \<le> 65535 \<and> c = connect_ex E q t \<and> clock w \<le> t \<and> t \<le> clock w')
           \<and> (r = Inr True \<longrightarrow> cp' = [])
           \<and> (r = Inr False \<longrightarrow> cp' \<noteq> [] \<and> (\<exists>u. until = Some u \<and> num_ge (clock w') u))
           \<and> (r = Inl UnboundLocalError \<longrightarrow> until = None \<and> cp \<noteq> [] \<and> cp' = cp \<and> w' = w)
           \<and> (r = Inr True \<or> r = Inr False \<or> r = Inl UnboundLocalError
                 \<or> r = Inl OSError \<or> r = Inl OverflowError)
           \<and> (r = Inl OverflowError \<longrightarrow> (\<exists>p \<in> set cp. 65535 < p))
           \<and> (r = Inl OSError \<longrightarrow>
                 (\<exists>p \<in> set cp. \<exists>t t'. connect_ex E p t = 0 \<and> shutdown_raises E p t'))
           \<and> (r = Inl OSError \<or> r = Inl OverflowError \<longrightarrow>
                 (\<exists>k. sockets w' = sockets w @ replicate k SockClosed @ [SockOpen]))
           \<and> (r = Inr True \<or> r = Inr False \<or> r = Inl UnboundLocalError \<longrightarrow>
                 sockets w' = sockets w @ replicate (length (new_probes w w')) SockClosed))"

text \<open>Concrete environments, configuration and initial state used to run the model.\<close>

definition refusing_env :: env where
  "refusing_env = \<lparr>connect_ex = (\<lambda>p t. 111), connect_duration = (\<lambda>p t. 0),
     shutdown_raises = (\<lambda>p t. False), is_alive = (\<lambda>t. False)\<rparr>"


definition listening_env :: env where
  "listening_env = \<lparr>connect_ex = (\<lambda>p t. 0), connect_duration = (\<lambda>p t. 0),
     shutdown_raises = (\<lambda>p t. False), is_alive = (\<lambda>t. True)\<rparr>"



text \<open>A peer that accepts the connection and resets it at once.\<close>

definition resetting_env :: env where
  "resetting_env = \<lparr>connect_ex = (\<lambda>p t. 0), connect_duration = (\<lambda>p t. 0),
     shutdown_raises = (\<lambda>p t. True), is_alive = (\<lambda>t. True)\<rparr>"

definition world0 :: world where
  "world0 = \<lparr>clock = 0, sockets = [], probes = []\<rparr>"

definition example_config :: config where
  "example_config = [''ret_port'' \<mapsto> 4506, ''publish_port'' \<mapsto> 4505, ''pytest_port'' \<mapsto> 4507]"


section \<open>Teardown of a daemon process (the fixtures of fixtures/daemons.py)\<close>

text \<open>
  The process behind a handle is running, has exited without having been waited for (its
  process id still names it), or has been waited for (reaped: the process id names nothing
  any more). \<open>sigterms\<close> counts the termination signals delivered to the running process.
\<close>

datatype proc_state = Running | Exited | Reaped

record handle =
  proc :: proc_state
  sigterms :: nat

datatype 'a outcome = Done 'a | Raises error | Blocks

text \<open>
  \<^verbatim>\<open>os.kill(pid, signal.SIGTERM)\<close>: a running process receives the signal and exits; signalling
  an exited process that has not been waited for succeeds and does nothing; when the
  process id names no process, \<^verbatim>\<open>os.kill\<close> raises \<^verbatim>\<open>OSError\<close> (no such process).
\<close>

definition os_kill :: "handle \<Rightarrow> handle outcome" where
  "os_kill h =
     (case proc h of
        Running \<Rightarrow> Done (h\<lparr>proc := Exited, sigterms := Suc (sigterms h)\<rparr>)
      | Exited \<Rightarrow> Done h
      | Reaped \<Rightarrow> Raises OSError)"

text \<open>
  \<^verbatim>\<open>join()\<close> without a timeout returns once the process has exited, and waits for it; on a
  process that keeps running it does not return.
\<close>

definition join :: "handle \<Rightarrow> handle outcome" where
  "join h =
     (case proc h of
        Running \<Rightarrow> Blocks
      | Exited \<Rightarrow> Done (h\<lparr>proc := Reaped\<rparr>)
      | Reaped \<Rightarrow> Done h)"

text \<open>
  \<^verbatim>\<open>terminate()\<close> of a multiprocessing process signals only while no exit status has been
  collected, and swallows the error of signalling a process that is gone.
\<close>

definition terminate :: "handle \<Rightarrow> handle outcome" where
  "terminate h =
     (case proc h of
        Running \<Rightarrow> Done (h\<lparr>proc := Exited, sigterms := Suc (sigterms h)\<rparr>)
      | Exited \<Rightarrow> Done h
      | Reaped \<Rightarrow> Done h)"

fun and_then :: "'a outcome \<Rightarrow> ('a \<Rightarrow> 'b outcome) \<Rightarrow> 'b outcome" where
  "and_then (Done x) f = f x"
| "and_then (Raises e) f = Raises e"
| "and_then Blocks f = Blocks"

text \<open>
  The end of \<open>salt_master\<close> (and of every fixture but \<open>cli_salt_master\<close>):
  \<^verbatim>\<open>
    os.kill(master_process.pid, signal.SIGTERM)
    master_process.join()
    master_process.terminate()
  \<close>
\<close>

definition salt_master_teardown :: "handle \<Rightarrow> handle outcome" where
  "salt_master_teardown h = and_then (and_then (os_kill h) join) terminate"

text \<open>
  The end of \<open>cli_salt_master\<close>:
  \<^verbatim>\<open>
    try:
        os.kill(master_process.pid, signal.SIGTERM)
    except OSError:
        pass
    master_process.join()
    master_process.terminate()
  \<close>
\<close>

definition cli_salt_master_teardown :: "handle \<Rightarrow> handle outcome" where
  "cli_salt_master_teardown h =
     and_then (and_then (case os_kill h of Raises OSError \<Rightarrow> Done h | r \<Rightarrow> r) join) terminate"


section \<open>Helper command probe (SaltCliMinion._salt_call)\<close>

text \<open>
  \<^verbatim>\<open>proc.wait(timeout)\<close> of a timed subprocess either returns, the helper having exited with a
  return code within the timeout, or raises \<^verbatim>\<open>TimedProcTimeoutError\<close>.
\<close>

datatype wait_result = Finished int | TimedProcTimeoutError

datatype log_entry = LogRunning | LogFinished int | LogTimedOut

text \<open>
  \<open>helper_wait k t\<close> is what waiting \<open>t\<close> seconds for the \<open>k\<close>-th helper process spawned does.
  The state counts the processes spawned and keeps the warnings logged.
\<close>

record salt_call_state =
  spawned :: nat
  logged :: "log_entry list"

definition TimedProc :: "salt_call_state \<Rightarrow> nat \<times> salt_call_state" where
  "TimedProc s = (spawned s, s\<lparr>spawned := Suc (spawned s)\<rparr>)"

definition log_warning :: "log_entry \<Rightarrow> salt_call_state \<Rightarrow> salt_call_state" where
  "log_warning l s = s\<lparr>logged := logged s @ [l]\<rparr>"

text \<open>
  \<^verbatim>\<open>
    def _executor_run(*args, **kwargs):
        timeout = kwargs.pop('timeout', 5)
        ...
        log.warn('Running ...')
        proc = timed_subprocess.TimedProc(proc_args, with_communicate=True)
        try:
            print('Communicate:', proc.wait(timeout))
            log.warning('salt-call finished. retcode: %s', proc.process.returncode)
            return proc.process.returncode == 0
        except TimedProcTimeoutError:
            log.warning('\n\nTimed out!!!   %s', proc.process.communicate())
            return False
  \<close>
\<close>

definition executor_run ::
  "(nat \<Rightarrow> int \<Rightarrow> wait_result) \<Rightarrow> int option \<Rightarrow> salt_call_state \<Rightarrow> bool \<times> salt_call_state" where
  "executor_run helper_wait timeout_kw s =
     (let timeout = (case timeout_kw of None \<Rightarrow> 5 | Some t \<Rightarrow> t);
          s1 = log_warning LogRunning s;
          (proc, s2) = TimedProc s1
      in case helper_wait proc timeout of
           Finished returncode \<Rightarrow> (returncode = 0, log_warning (LogFinished returncode) s2)
         | TimedProcTimeoutError \<Rightarrow> (False, log_warning LogTimedOut s2))"

text \<open>
  \<^verbatim>\<open>return self.executor.submit(_executor_run, *args, **kwargs)\<close>: the job is run once on a
  pool thread; the value here is the result the future delivers.
\<close>

definition salt_call ::
  "(nat \<Rightarrow> int \<Rightarrow> wait_result) \<Rightarrow> int option \<Rightarrow> salt_call_state \<Rightarrow> bool \<times> salt_call_state" where
  "salt_call helper_wait timeout_kw s = executor_run helper_wait timeout_kw s"


section \<open>Log relay (salt/log_handlers/pytest_log_handler.py)\<close>

text \<open>
  The exceptions the loop tells apart: the four classes of its first \<^verbatim>\<open>except\<close> clause, any
  other class that derives from \<^verbatim>\<open>Exception\<close> (by name), and any class that derives from
  \<^verbatim>\<open>BaseException\<close> only.
\<close>

datatype relay_exn =
    IOError | EOFError | KeyboardInterrupt | SystemExit
  | OtherException string
  | OtherBaseException string

fun is_Exception :: "relay_exn \<Rightarrow> bool" where
  "is_Exception KeyboardInterrupt = False"
| "is_Exception SystemExit = False"
| "is_Exception (OtherBaseException n) = False"
| "is_Exception e = True"

text \<open>Membership in \<^verbatim>\<open>(IOError, EOFError, KeyboardInterrupt, SystemExit)\<close>.\<close>

fun stops_relay :: "relay_exn \<Rightarrow> bool" where
  "stops_relay IOError = True"
| "stops_relay EOFError = True"
| "stops_relay KeyboardInterrupt = True"
| "stops_relay SystemExit = True"
| "stops_relay e = False"

datatype pyval = PyStr string | PyInt int | PyNone | PyObject

text \<open>A record's \<^verbatim>\<open>__dict__\<close>, in insertion order.\<close>

type_synonym record_dict = "(string \<times> pyval) list"

text \<open>
  A value taken from the queue: \<^verbatim>\<open>None\<close>, an object with a \<^verbatim>\<open>__dict__\<close>, or a value
  without one. One call of \<^verbatim>\<open>queue.get()\<close> delivers a value or raises; the queue is the list
  of what the successive calls do, and a call on the exhausted queue blocks for ever.
\<close>

datatype qvalue = QNone | QObject record_dict | QPlain

datatype qevent = Get qvalue | GetRaises relay_exn

text \<open>
  The environment: what \<^verbatim>\<open>sock.connect\<close> raises (if anything), what \<^verbatim>\<open>msgpack.dumps\<close> returns
  or raises on a dictionary, and what the \<open>n\<close>-th call of \<^verbatim>\<open>sock.sendall\<close> raises (if anything).
\<close>

record 'm relay_env =
  sock_connect :: "nat \<Rightarrow> relay_exn option"
  msgpack_dumps :: "record_dict \<Rightarrow> relay_exn + 'm"
  sock_sendall :: "nat \<Rightarrow> relay_exn option"

text \<open>
  The state: the messages written to the socket, oldest first, the exceptions reported by
  \<^verbatim>\<open>log.warning\<close>, and the number of calls of \<^verbatim>\<open>sendall\<close>.
\<close>

record 'm relay =
  forwarded :: "'m list"
  warnings :: "relay_exn list"
  sendall_calls :: nat

text \<open>\<^verbatim>\<open>prefix + record_dict['msg']\<close> with a \<^verbatim>\<open>str\<close> prefix.\<close>

definition str_add :: "string \<Rightarrow> pyval \<Rightarrow> relay_exn + pyval" where
  "str_add prefix v =
     (case v of PyStr m \<Rightarrow> Inr (PyStr (prefix @ m)) | _ \<Rightarrow> Inl (OtherException ''TypeError''))"

datatype step = Break | Next

text \<open>
  The suite of the \<^verbatim>\<open>try\<close>:
  \<^verbatim>\<open>
    record = queue.get()
    if record is None:
        break
    record_dict = record.__dict__
    record_dict['msg'] = prefix + record_dict['msg']
    sock.sendall(msgpack.dumps(record_dict, encoding='utf-8'))
  \<close>
  It ends by \<^verbatim>\<open>break\<close>, by reaching its end, or by an exception.
\<close>

definition try_suite ::
  "'m relay_env \<Rightarrow> string \<Rightarrow> qevent \<Rightarrow> 'm relay \<Rightarrow> (relay_exn + step) \<times> 'm relay" where
  "try_suite E prefix ev s =
     (case ev of
        GetRaises e \<Rightarrow> (Inl e, s)
      | Get QNone \<Rightarrow> (Inr Break, s)
      | Get QPlain \<Rightarrow> (Inl (OtherException ''AttributeError''), s)
      | Get (QObject record_dict) \<Rightarrow>
          (case map_of record_dict ''msg'' of
             None \<Rightarrow> (Inl (OtherException ''KeyError''), s)
           | Some msg \<Rightarrow>
          (case str_add prefix msg of
             Inl e \<Rightarrow> (Inl e, s)
           | Inr v \<Rightarrow>
          (case msgpack_dumps E (AList.update ''msg'' v record_dict) of
             Inl e \<Rightarrow> (Inl e, s)
           | Inr m \<Rightarrow>
          (case sock_sendall E (sendall_calls s) of
             Some e \<Rightarrow> (Inl e, s\<lparr>sendall_calls := Suc (sendall_calls s)\<rparr>)
           | None \<Rightarrow>
               (Inr Next, s\<lparr>forwarded := forwarded s @ [m],
                            sendall_calls := Suc (sendall_calls s)\<rparr>))))))"

datatype loop_exit = Returned | Propagated relay_exn | Blocked

text \<open>
  The \<^verbatim>\<open>while True\<close> loop with its handlers:
  \<^verbatim>\<open>
    except (IOError, EOFError, KeyboardInterrupt, SystemExit):
        break
    except Exception as exc:
        log.warning(...)
  \<close>
  An exception that neither clause matches leaves the function.
\<close>

fun relay_loop ::
  "'m relay_env \<Rightarrow> string \<Rightarrow> qevent list \<Rightarrow> 'm relay \<Rightarrow> loop_exit \<times> 'm relay" where
  "relay_loop E prefix [] s = (Blocked, s)"
| "relay_loop E prefix (ev # queue) s =
     (case try_suite E prefix ev s of
        (Inr Break, s') \<Rightarrow> (Returned, s')
      | (Inr Next, s') \<Rightarrow> relay_loop E prefix queue s'
      | (Inl e, s') \<Rightarrow>
          if stops_relay e then (Returned, s')
          else if is_Exception e
            then relay_loop E prefix queue (s'\<lparr>warnings := warnings s' @ [e]\<rparr>)
          else (Propagated e, s'))"

text \<open>
  \<^verbatim>\<open>
    def process_queue(port, prefix, queue):
        sock = socket.socket(socket.AF_INET, socket.SOCK_STREAM)
        sock.connect(('localhost', port))
        while True: ...
  \<close>
  The connection is made outside the \<^verbatim>\<open>try\<close>.
\<close>

definition relay0 :: "'m relay" where
  "relay0 = \<lparr>forwarded = [], warnings = [], sendall_calls = 0\<rparr>"

definition process_queue ::
  "'m relay_env \<Rightarrow> nat \<Rightarrow> string \<Rightarrow> qevent list \<Rightarrow> loop_exit \<times> 'm relay" where
  "process_queue E port prefix queue =
     (case sock_connect E port of
        Some e \<Rightarrow> (Propagated e, relay0)
      | None \<Rightarrow> relay_loop E prefix queue relay0)"

text \<open>
  Vocabulary for the properties of the relay: a dictionary whose \<open>msg\<close> is a string, and
  that dictionary with the prefix put before its \<open>msg\<close>.
\<close>

definition has_str_msg :: "record_dict \<Rightarrow> bool" where
  "has_str_msg d = (case map_of d ''msg'' of Some (PyStr m) \<Rightarrow> True | _ \<Rightarrow> False)"

definition prefixed :: "string \<Rightarrow> record_dict \<Rightarrow> record_dict" where
  "prefixed prefix d =
     (case map_of d ''msg'' of
        Some (PyStr m) \<Rightarrow> AList.update ''msg'' (PyStr (prefix @ m)) d
      | _ \<Rightarrow> d)"

text \<open>
  Concrete relay environments: a collector that accepts everything, with the dictionary
  itself standing for its encoding, and one whose connection is lost before the first
  write.
\<close>

definition accepting_relay_env :: "record_dict relay_env" where
  "accepting_relay_env =
     \<lparr>sock_connect = (\<lambda>port. None), msgpack_dumps = (\<lambda>d. Inr d), sock_sendall = (\<lambda>n. None)\<rparr>"

definition broken_relay_env :: "record_dict relay_env" where
  "broken_relay_env =
     \<lparr>sock_connect = (\<lambda>port. None), msgpack_dumps = (\<lambda>d. Inr d),
      sock_sendall = (\<lambda>n. Some IOError)\<rparr>"

definition picky_relay_env :: "record_dict relay_env" where
  "picky_relay_env =
     \<lparr>sock_connect = (\<lambda>port. None),
      msgpack_dumps = (\<lambda>d. if PyObject \<in> set (map snd d)
                             then Inl (OtherException ''TypeError'') else Inr d),
      sock_sendall = (\<lambda>n. if n = 1 then Some IOError else None)\<rparr>"


section \<open>Lemmas about the probing loop\<close>

lemma succeeded_Nil: "succeeded [] = {}"
  by (simp add: succeeded_def)

lemma succeeded_append: "succeeded (xs @ ys) = succeeded xs \<union> succeeded ys"
  by (auto simp: succeeded_def)

lemma succeeded_Cons:
  "succeeded ((p, t, c) # xs) = (if c = 0 then insert p (succeeded xs) else succeeded xs)"
  by (auto simp: succeeded_def)

lemma probe_port_overflow:
  "65535 < p \<Longrightarrow>
   probe_port E p (cp, w) = (Some OverflowError, cp, w\<lparr>sockets := sockets w @ [SockOpen]\<rparr>)"
  by (simp add: probe_port_def socket_new_def sock_connect_ex_def)

lemma probe_port_refused:
  "p \<le> 65535 \<Longrightarrow> connect_ex E p (clock w) \<noteq> 0 \<Longrightarrow>
   probe_port E p (cp, w) =
     (None, cp, \<lparr>clock = clock w + of_nat (connect_duration E p (clock w)) / 1000,
                 sockets = sockets w @ [SockClosed],
                 probes = probes w @ [(p, clock w, connect_ex E p (clock w))]\<rparr>)"
  by (simp add: probe_port_def socket_new_def sock_connect_ex_def del_sock_def)

lemma probe_port_reset:
  "p \<le> 65535 \<Longrightarrow> connect_ex E p (clock w) = 0 \<Longrightarrow>
   shutdown_raises E p (clock w + of_nat (connect_duration E p (clock w)) / 1000) \<Longrightarrow>
   probe_port E p (cp, w) =
     (Some OSError, removeAll p cp,
      \<lparr>clock = clock w + of_nat (connect_duration E p (clock w)) / 1000,
       sockets = sockets w @ [SockOpen],
       probes = probes w @ [(p, clock w, 0)]\<rparr>)"
  by (simp add: probe_port_def socket_new_def sock_connect_ex_def sock_shutdown_def)

lemma probe_port_connected:
  "p \<le> 65535 \<Longrightarrow> connect_ex E p (clock w) = 0 \<Longrightarrow>
   \<not> shutdown_raises E p (clock w + of_nat (connect_duration E p (clock w)) / 1000) \<Longrightarrow>
   probe_port E p (cp, w) =
     (None, removeAll p cp,
      \<lparr>clock = clock w + of_nat (connect_duration E p (clock w)) / 1000,
       sockets = sockets w @ [SockClosed],
       probes = probes w @ [(p, clock w, 0)]\<rparr>)"
  by (simp add: probe_port_def socket_new_def sock_connect_ex_def sock_shutdown_def
      sock_close_def del_sock_def)

lemma new_probes_self: "new_probes w w = []"
  by (simp add: new_probes_def)

lemma new_probes_append: "probes w' = probes w @ new \<Longrightarrow> new_probes w w' = new"
  by (simp add: new_probes_def)

lemma new_probes_trans:
  "probes w1 = probes w @ new_probes w w1 \<Longrightarrow> probes w' = probes w1 @ new_probes w1 w' \<Longrightarrow>
   new_probes w w' = new_probes w w1 @ new_probes w1 w'
   \<and> probes w' = probes w @ new_probes w w'"
  by (metis append.assoc new_probes_append)

text \<open>What one call of the loop body does, whichever of its four paths it takes.\<close>

lemma probe_port_inv:
  assumes "probe_port E p (cp, w) = (x, cp', w')"
  shows "probes w' = probes w @ new_probes w w'
           \<and> set cp' = set cp - succeeded (new_probes w w')
           \<and> length cp' \<le> length cp
           \<and> clock w \<le> clock w'
           \<and> clock w' \<le> clock w + of_nat (connect_duration E p (clock w)) / 1000
           \<and> (\<forall>(q, t, c) \<in> set (new_probes w w').
                 q = p \<and> q \<le> 65535 \<and> c = connect_ex E q t \<and> t = clock w)
           \<and> (x = None \<longrightarrow> map fst (new_probes w w') = [p]
                 \<and> sockets w' = sockets w @ [SockClosed])
           \<and> (x \<noteq> None \<longrightarrow> sockets w' = sockets w @ [SockOpen])
           \<and> (x = None \<or> x = Some OSError \<or> x = Some OverflowError)
           \<and> (x = Some OverflowError \<longrightarrow> 65535 < p)
           \<and> (x = Some OSError \<longrightarrow> p \<le> 65535 \<and> connect_ex E p (clock w) = 0
                  \<and> shutdown_raises E p (clock w'))"
proof -
  let ?d = "of_nat (connect_duration E p (clock w)) / (1000::rat)"
  have d: "0 \<le> ?d" by simp
  consider (ovf) "65535 < p"
    | (ref) "p \<le> 65535" "connect_ex E p (clock w) \<noteq> 0"
    | (rst) "p \<le> 65535" "connect_ex E p (clock w) = 0" "shutdown_raises E p (clock w + ?d)"
    | (con) "p \<le> 65535" "connect_ex E p (clock w) = 0" "\<not> shutdown_raises E p (clock w + ?d)"
    by fastforce
  then show ?thesis
  proof cases
    case ovf
    with assms have "x = Some OverflowError" "cp' = cp" "w' = w\<lparr>sockets := sockets w @ [SockOpen]\<rparr>"
      by (simp_all add: probe_port_overflow)
    with ovf show ?thesis
      by (simp add: succeeded_Nil new_probes_def)
  next
    case ref
    with assms have "x = None" "cp' = cp"
      "w' = \<lparr>clock = clock w + ?d, sockets = sockets w @ [SockClosed],
             probes = probes w @ [(p, clock w, connect_ex E p (clock w))]\<rparr>"
      by (simp_all add: probe_port_refused)
    with ref show ?thesis
      by (simp add: succeeded_Cons succeeded_Nil new_probes_def)
  next
    case rst
    with assms have "x = Some OSError" "cp' = removeAll p cp"
      "w' = \<lparr>clock = clock w + ?d, sockets = sockets w @ [SockOpen],
             probes = probes w @ [(p, clock w, 0)]\<rparr>"
      by (simp_all add: probe_port_reset)
    with rst show ?thesis
      using length_removeAll_less_eq [of p cp]
      by (auto simp: succeeded_Cons succeeded_Nil new_probes_def)
  next
    case con
    with assms have "x = None" "cp' = removeAll p cp"
      "w' = \<lparr>clock = clock w + ?d, sockets = sockets w @ [SockClosed],
             probes = probes w @ [(p, clock w, 0)]\<rparr>"
      by (simp_all add: probe_port_connected)
    with con show ?thesis
      using length_removeAll_less_eq [of p cp]
      by (auto simp: succeeded_Cons succeeded_Nil new_probes_def)
  qed
qed

lemma probe_port_facts:
  assumes "probe_port E p (cp, w) = (x, cp', w')"
  shows "probes w' = probes w @ new_probes w w'"
    and "set cp' = set cp - succeeded (new_probes w w')"
    and "length cp' \<le> length cp"
    and "clock w \<le> clock w'"
    and "clock w' \<le> clock w + of_nat (connect_duration E p (clock w)) / 1000"
    and "\<forall>(q, t, c) \<in> set (new_probes w w').
                 q = p \<and> q \<le> 65535 \<and> c = connect_ex E q t \<and> t = clock w"
    and "x = None \<longrightarrow> map fst (new_probes w w') = [p]
                 \<and> sockets w' = sockets w @ [SockClosed]"
    and "x \<noteq> None \<longrightarrow> sockets w' = sockets w @ [SockOpen]"
    and "x = None \<or> x = Some OSError \<or> x = Some OverflowError"
    and "x = Some OverflowError \<longrightarrow> 65535 < p"
    and "x = Some OSError \<longrightarrow> p \<le> 65535 \<and> connect_ex E p (clock w) = 0
                  \<and> shutdown_raises E p (clock w')"
  using probe_port_inv [OF assms] by blast+

lemma probe_ports_inv:
  assumes "probe_ports E ps (cp, w) = (x, cp', w')"
  shows "probes w' = probes w @ new_probes w w'
           \<and> set cp' = set cp - succeeded (new_probes w w')
           \<and> length cp' \<le> length cp
           \<and> clock w \<le> clock w'
           \<and> (\<forall>(q, t, c) \<in> set (new_probes w w').
                 q \<in> set ps \<and> q \<le> 65535 \<and> c = connect_ex E q t \<and> clock w \<le> t \<and> t \<le> clock w')
           \<and> (x = None \<longrightarrow> map fst (new_probes w w') = ps
                 \<and> sockets w' = sockets w @ replicate (length ps) SockClosed)
           \<and> (x \<noteq> None \<longrightarrow> (\<exists>k. sockets w' = sockets w @ replicate k SockClosed @ [SockOpen]))
           \<and> (x = None \<or> x = Some OSError \<or> x = Some OverflowError)
           \<and> (x = Some OverflowError \<longrightarrow> (\<exists>p \<in> set ps. 65535 < p))
           \<and> (x = Some OSError \<longrightarrow>
                 (\<exists>p \<in> set ps. \<exists>t t'. connect_ex E p t = 0 \<and> shutdown_raises E p t'))"
  using assms
proof (induction ps arbitrary: cp w)
  case Nil
  then have "x = None" "cp' = cp" "w' = w" by simp_all
  then show ?case by (simp add: succeeded_Nil new_probes_self)
next
  case (Cons p ps)
  obtain x1 cp1 w1 where step: "probe_port E p (cp, w) = (x1, cp1, w1)"
    by (cases "probe_port E p (cp, w)") auto
  note a = probe_port_facts [OF step]
  have a5': "\<forall>(q, t, c) \<in> set (new_probes w w1).
        q \<in> set (p # ps) \<and> q \<le> 65535 \<and> c = connect_ex E q t \<and> clock w \<le> t \<and> t \<le> clock w1"
    using a(6) a(4) by auto
  show ?case
  proof (cases x1)
    case (Some e)
    with Cons.prems step have res: "x = Some e" "cp' = cp1" "w' = w1" by simp_all
    have d1: "probes w' = probes w @ new_probes w w'" using a(1) res by simp
    have d2: "set cp' = set cp - succeeded (new_probes w w')" using a(2) res by simp
    have d3: "length cp' \<le> length cp" using a(3) res by simp
    have d4: "clock w \<le> clock w'" using a(4) res by simp
    have d5: "\<forall>(q, t, c) \<in> set (new_probes w w').
        q \<in> set (p # ps) \<and> q \<le> 65535 \<and> c = connect_ex E q t \<and> clock w \<le> t \<and> t \<le> clock w'"
      using a5' res by simp
    have d6: "x = None \<longrightarrow> map fst (new_probes w w') = p # ps
        \<and> sockets w' = sockets w @ replicate (length (p # ps)) SockClosed"
      using res by simp
    have "sockets w' = sockets w @ replicate 0 SockClosed @ [SockOpen]"
      using a(8) Some res by simp
    then have "\<exists>k. sockets w' = sockets w @ replicate k SockClosed @ [SockOpen]" by blast
    then have d7: "x \<noteq> None \<longrightarrow> (\<exists>k. sockets w' = sockets w @ replicate k SockClosed @ [SockOpen])"
      by simp
    have d8: "x = None \<or> x = Some OSError \<or> x = Some OverflowError"
      using a(9) Some res by simp
    have d9: "x = Some OverflowError \<longrightarrow> (\<exists>q \<in> set (p # ps). 65535 < q)"
      using a(10) Some res by auto
    have d10: "x = Some OSError \<longrightarrow>
        (\<exists>q \<in> set (p # ps). \<exists>t t'. connect_ex E q t = 0 \<and> shutdown_raises E q t')"
      using a(11) Some res by auto
    show ?thesis
      by (intro conjI d1 d2 d3 d4 d5 d6 d7 d8 d9 d10)
  next
    case None
    with Cons.prems step have rest: "probe_ports E ps (cp1, w1) = (x, cp', w')" by simp
    from Cons.IH [OF rest] have
      b1: "probes w' = probes w1 @ new_probes w1 w'" and
      b2: "set cp' = set cp1 - succeeded (new_probes w1 w')" and
      b3: "length cp' \<le> length cp1" and
      b4: "clock w1 \<le> clock w'" and
      b5: "\<forall>(q, t, c) \<in> set (new_probes w1 w').
             q \<in> set ps \<and> q \<le> 65535 \<and> c = connect_ex E q t \<and> clock w1 \<le> t \<and> t \<le> clock w'" and
      b6: "x = None \<longrightarrow> map fst (new_probes w1 w') = ps
             \<and> sockets w' = sockets w1 @ replicate (length ps) SockClosed" and
      b7: "x \<noteq> None \<longrightarrow> (\<exists>k. sockets w' = sockets w1 @ replicate k SockClosed @ [SockOpen])" and
      b8: "x = None \<or> x = Some OSError \<or> x = Some OverflowError" and
      b9: "x = Some OverflowError \<longrightarrow> (\<exists>p \<in> set ps. 65535 < p)" and
      b10: "x = Some OSError \<longrightarrow>
             (\<exists>p \<in> set ps. \<exists>t t'. connect_ex E p t = 0 \<and> shutdown_raises E p t')"
      by blast+
    from new_probes_trans [OF a(1) b1] have
      nw: "new_probes w w' = new_probes w w1 @ new_probes w1 w'" and
      c1: "probes w' = probes w @ new_probes w w'"
      by blast+
    have w1s: "sockets w1 = sockets w @ [SockClosed]"
      and m1: "map fst (new_probes w w1) = [p]"
      using a(7) None by simp_all
    have c2: "set cp' = set cp - succeeded (new_probes w w')"
      using a(2) b2 unfolding nw by (auto simp: succeeded_append)
    have c3: "length cp' \<le> length cp" using a(3) b3 by linarith
    have c4: "clock w \<le> clock w'" using a(4) b4 by linarith
    have c5: "\<forall>(q, t, c) \<in> set (new_probes w w').
        q \<in> set (p # ps) \<and> q \<le> 65535 \<and> c = connect_ex E q t \<and> clock w \<le> t \<and> t \<le> clock w'"
    proof -
      have "\<forall>(q, t, c) \<in> set (new_probes w w1).
          q \<in> set (p # ps) \<and> q \<le> 65535 \<and> c = connect_ex E q t \<and> clock w \<le> t \<and> t \<le> clock w'"
        using a5' b4 by fastforce
      moreover have "\<forall>(q, t, c) \<in> set (new_probes w1 w').
          q \<in> set (p # ps) \<and> q \<le> 65535 \<and> c = connect_ex E q t \<and> clock w \<le> t \<and> t \<le> clock w'"
        using b5 a(4) by fastforce
      ultimately show ?thesis unfolding nw by auto
    qed
    have c6: "x = None \<longrightarrow> map fst (new_probes w w') = p # ps
        \<and> sockets w' = sockets w @ replicate (length (p # ps)) SockClosed"
      using m1 b6 w1s unfolding nw by (simp add: replicate_app_Cons_same)
    have c7: "x \<noteq> None \<longrightarrow> (\<exists>k. sockets w' = sockets w @ replicate k SockClosed @ [SockOpen])"
    proof
      assume "x \<noteq> None"
      with b7 obtain k where "sockets w' = sockets w1 @ replicate k SockClosed @ [SockOpen]"
        by blast
      then have "sockets w' = sockets w @ replicate (Suc k) SockClosed @ [SockOpen]"
        using w1s by simp
      then show "\<exists>k. sockets w' = sockets w @ replicate k SockClosed @ [SockOpen]" by blast
    qed
    have c9: "x = Some OverflowError \<longrightarrow> (\<exists>q \<in> set (p # ps). 65535 < q)"
      using b9 by auto
    have c10: "x = Some OSError \<longrightarrow>
        (\<exists>q \<in> set (p # ps). \<exists>t t'. connect_ex E q t = 0 \<and> shutdown_raises E q t')"
      using b10 by auto
    show ?thesis
      by (intro conjI c1 c2 c3 c4 c5 c6 c7 b8 c9 c10)
  qed
qed

lemma probe_ports_facts:
  assumes "probe_ports E ps (cp, w) = (x, cp', w')"
  shows "probes w' = probes w @ new_probes w w'"
    and "set cp' = set cp - succeeded (new_probes w w')"
    and "length cp' \<le> length cp"
    and "clock w \<le> clock w'"
    and "\<forall>(q, t, c) \<in> set (new_probes w w').
           q \<in> set ps \<and> q \<le> 65535 \<and> c = connect_ex E q t \<and> clock w \<le> t \<and> t \<le> clock w'"
    and "x = None \<longrightarrow> map fst (new_probes w w') = ps
           \<and> sockets w' = sockets w @ replicate (length ps) SockClosed"
    and "x \<noteq> None \<longrightarrow> (\<exists>k. sockets w' = sockets w @ replicate k SockClosed @ [SockOpen])"
    and "x = None \<or> x = Some OSError \<or> x = Some OverflowError"
    and "x = Some OverflowError \<longrightarrow> (\<exists>p \<in> set ps. 65535 < p)"
    and "x = Some OSError \<longrightarrow>
           (\<exists>p \<in> set ps. \<exists>t t'. connect_ex E p t = 0 \<and> shutdown_raises E p t')"
  using probe_ports_inv [OF assms] by blast+

lemma probe_ports_clock:
  assumes "probe_ports E ps (cp, w) = (x, cp', w')"
    and "\<forall>p t. connect_duration E p t \<le> L"
  shows "clock w' \<le> clock w + of_nat L / 1000 * of_nat (length ps)"
  using assms(1)
proof (induction ps arbitrary: cp w)
  case Nil
  then show ?case by simp
next
  case (Cons p ps)
  obtain x1 cp1 w1 where step: "probe_port E p (cp, w) = (x1, cp1, w1)"
    by (cases "probe_port E p (cp, w)") auto
  have s: "clock w1 \<le> clock w + of_nat (connect_duration E p (clock w)) / 1000"
    by (rule probe_port_facts(5) [OF step])
  have "(of_nat (connect_duration E p (clock w)) :: rat) \<le> of_nat L"
    using assms(2) by simp
  then have d: "(of_nat (connect_duration E p (clock w)) :: rat) / 1000 \<le> of_nat L / 1000"
    by simp
  have L0: "(0::rat) \<le> of_nat L / 1000 * of_nat (length ps)" by simp
  have split: "(of_nat L :: rat) / 1000 * of_nat (length (p # ps))
      = of_nat L / 1000 + of_nat L / 1000 * of_nat (length ps)"
    by (simp add: algebra_simps)
  show ?case
  proof (cases x1)
    case (Some e)
    with Cons.prems step have "clock w' = clock w1" by simp
    with s d L0 show ?thesis unfolding split by linarith
  next
    case None
    with Cons.prems step have "probe_ports E ps (cp1, w1) = (x, cp', w')" by simp
    from Cons.IH [OF this]
    have "clock w' \<le> clock w1 + of_nat L / 1000 * of_nat (length ps)" .
    with s d show ?thesis unfolding split by linarith
  qed
qed


lemma probe_ports_refusing:
  assumes "probe_ports E ps (cp, w) = (x, cp', w')"
    and "\<forall>p \<in> set ps. p \<le> 65535 \<and> (\<forall>t. connect_ex E p t \<noteq> 0)"
  shows "x = None \<and> cp' = cp"
  using assms
proof (induction ps arbitrary: cp w)
  case Nil
  then show ?case by simp
next
  case (Cons p ps)
  have p: "p \<le> 65535" "connect_ex E p (clock w) \<noteq> 0" using Cons.prems(2) by simp_all
  from Cons.prems(1) probe_port_refused [OF p, of cp]
  obtain w1 where "probe_ports E ps (cp, w1) = (x, cp', w')" by simp
  from Cons.IH [OF this] Cons.prems(2) show ?case by simp
qed


lemma wait_loop_empty: "wait_loop E until [] w = Some (Inr True, [], w)"
  by (simp add: wait_loop.simps)

lemma wait_loop_unbound:
  "cp \<noteq> [] \<Longrightarrow> wait_loop E None cp w = Some (Inl UnboundLocalError, cp, w)"
  by (simp add: wait_loop.simps)

lemma wait_loop_expired:
  "cp \<noteq> [] \<Longrightarrow> num_ge (clock w) u \<Longrightarrow> wait_loop E (Some u) cp w = Some (Inr False, cp, w)"
  by (simp add: wait_loop.simps)

lemma wait_loop_raise:
  "cp \<noteq> [] \<Longrightarrow> \<not> num_ge (clock w) u \<Longrightarrow> probe_ports E cp (cp, w) = (Some e, cp1, w1) \<Longrightarrow>
   wait_loop E (Some u) cp w = Some (Inl e, cp1, w1)"
  by (subst wait_loop.simps) simp

lemma wait_loop_round:
  "cp \<noteq> [] \<Longrightarrow> \<not> num_ge (clock w) u \<Longrightarrow> probe_ports E cp (cp, w) = (None, cp1, w1) \<Longrightarrow>
   wait_loop E (Some u) cp w = wait_loop E (Some u) cp1 (sleep (1/8) w1)"
  by (subst wait_loop.simps) simp

lemma wait_loop_inv:
  assumes "wait_loop E until cp w = Some res"
  shows "loop_inv E until cp w res"
  using assms
proof (induction rule: wait_loop.raw_induct [rotated 1, consumes 1, case_names step])
  case (step f E until cp w res)
  note IH = step(1) and body = step(2)
  show ?case
  proof (cases "cp = []")
    case True
    with body have "res = (Inr True, [], w)" by simp
    with True show ?thesis by (simp add: loop_inv_def new_probes_self succeeded_Nil)
  next
    case ne: False
    show ?thesis
    proof (cases until)
      case None
      with ne body have "res = (Inl UnboundLocalError, cp, w)" by simp
      with ne None show ?thesis by (simp add: loop_inv_def new_probes_self succeeded_Nil)
    next
      case (Some u)
      show ?thesis
      proof (cases "num_ge (clock w) u")
        case True
        with ne Some body have "res = (Inr False, cp, w)" by simp
        with ne Some True show ?thesis by (simp add: loop_inv_def new_probes_self succeeded_Nil)
      next
        case before: False
        obtain x cp1 w1 where rnd: "probe_ports E cp (cp, w) = (x, cp1, w1)"
          by (cases "probe_ports E cp (cp, w)") auto
        note a = probe_ports_facts [OF rnd]
        show ?thesis
        proof (cases x)
          case raised: (Some e)
          with ne Some before rnd body have res: "res = (Inl e, cp1, w1)" by simp
          have e: "e = OSError \<or> e = OverflowError" using a(8) raised by simp
          have sk: "\<exists>k. sockets w1 = sockets w @ replicate k SockClosed @ [SockOpen]"
            using a(7) raised by simp
          have o1: "e = OverflowError \<longrightarrow> (\<exists>p \<in> set cp. 65535 < p)"
            using a(9) raised by simp
          have o2: "e = OSError \<longrightarrow>
              (\<exists>p \<in> set cp. \<exists>t t'. connect_ex E p t = 0 \<and> shutdown_raises E p t')"
            using a(10) raised by simp
          have n1: "Inl e \<noteq> (Inr True :: error + bool)" "Inl e \<noteq> (Inr False :: error + bool)"
            "Inl e \<noteq> (Inl UnboundLocalError :: error + bool)"
            using e by auto
          have r6: "(Inl e :: error + bool) = Inr True \<longrightarrow> cp1 = []" by simp
          have r7: "(Inl e :: error + bool) = Inr False \<longrightarrow>
              cp1 \<noteq> [] \<and> (\<exists>u. until = Some u \<and> num_ge (clock w1) u)" by simp
          have r8: "(Inl e :: error + bool) = Inl UnboundLocalError \<longrightarrow>
              until = None \<and> cp \<noteq> [] \<and> cp1 = cp \<and> w1 = w" using n1 by simp
          have r9: "(Inl e :: error + bool) = Inr True \<or> Inl e = Inr False
              \<or> Inl e = Inl UnboundLocalError \<or> Inl e = Inl OSError \<or> Inl e = Inl OverflowError"
            using e by auto
          have r10: "(Inl e :: error + bool) = Inl OverflowError \<longrightarrow> (\<exists>p \<in> set cp. 65535 < p)"
            using o1 by simp
          have r11: "(Inl e :: error + bool) = Inl OSError \<longrightarrow>
              (\<exists>p \<in> set cp. \<exists>t t'. connect_ex E p t = 0 \<and> shutdown_raises E p t')"
            using o2 by simp
          have r12: "(Inl e :: error + bool) = Inl OSError \<or> Inl e = Inl OverflowError \<longrightarrow>
              (\<exists>k. sockets w1 = sockets w @ replicate k SockClosed @ [SockOpen])"
            using sk by simp
          have r13: "(Inl e :: error + bool) = Inr True \<or> Inl e = Inr False
              \<or> Inl e = Inl UnboundLocalError \<longrightarrow>
              sockets w1 = sockets w @ replicate (length (new_probes w w1)) SockClosed"
            using n1 by simp
          show ?thesis
            unfolding res loop_inv_def prod.case
            by (intro conjI a(1) a(2) a(3) a(4) a(5) r6 r7 r8 r9 r10 r11 r12 r13)
        next
          case None
          with ne Some before rnd body
          have rec: "f E until cp1 (sleep (1/8) w1) = Some res" by simp
          obtain r cp' w' where res: "res = (r, cp', w')" by (cases res) auto
          let ?w2 = "sleep (1/8) w1"
          have w2: "probes ?w2 = probes w1" "sockets ?w2 = sockets w1"
            "clock ?w2 = clock w1 + 1/8" "new_probes ?w2 w' = new_probes w1 w'"
            "new_probes w ?w2 = new_probes w w1"
            by (simp_all add: sleep_def new_probes_def)
          from IH [OF rec] have "loop_inv E until cp1 ?w2 (r, cp', w')"
            unfolding res .
          then have
            b1: "probes w' = probes w1 @ new_probes w1 w'" and
            b2: "set cp' = set cp1 - succeeded (new_probes w1 w')" and
            b3: "length cp' \<le> length cp1" and
            b4: "clock w1 + 1/8 \<le> clock w'" and
            b5: "\<forall>(q, t, c) \<in> set (new_probes w1 w').
                   q \<in> set cp1 \<and> q \<le> 65535 \<and> c = connect_ex E q t
                   \<and> clock w1 + 1/8 \<le> t \<and> t \<le> clock w'" and
            b6: "r = Inr True \<longrightarrow> cp' = []" and
            b7: "r = Inr False \<longrightarrow> cp' \<noteq> [] \<and> (\<exists>u. until = Some u \<and> num_ge (clock w') u)" and
            b8: "r = Inl UnboundLocalError \<longrightarrow> until = None \<and> cp1 \<noteq> [] \<and> cp' = cp1 \<and> w' = ?w2" and
            b9: "r = Inr True \<or> r = Inr False \<or> r = Inl UnboundLocalError
                   \<or> r = Inl OSError \<or> r = Inl OverflowError" and
            b10: "r = Inl OverflowError \<longrightarrow> (\<exists>p \<in> set cp1. 65535 < p)" and
            b11: "r = Inl OSError \<longrightarrow>
                   (\<exists>p \<in> set cp1. \<exists>t t'. connect_ex E p t = 0 \<and> shutdown_raises E p t')" and
            b12: "r = Inl OSError \<or> r = Inl OverflowError \<longrightarrow>
                   (\<exists>k. sockets w' = sockets w1 @ replicate k SockClosed @ [SockOpen])" and
            b13: "r = Inr True \<or> r = Inr False \<or> r = Inl UnboundLocalError \<longrightarrow>
                   sockets w' = sockets w1 @ replicate (length (new_probes w1 w')) SockClosed"
            unfolding loop_inv_def prod.case w2 by blast+
          have sub: "set cp1 \<subseteq> set cp" using a(2) by auto
          have s1: "sockets w1 = sockets w @ replicate (length cp) SockClosed"
            and m1: "map fst (new_probes w w1) = cp"
            using a(6) None by simp_all
          have l1: "length (new_probes w w1) = length cp"
            using m1 by (metis length_map)
          from new_probes_trans [OF a(1) b1] have
            nw: "new_probes w w' = new_probes w w1 @ new_probes w1 w'" and
            c1: "probes w' = probes w @ new_probes w w'"
            by blast+
          have c2: "set cp' = set cp - succeeded (new_probes w w')"
            using a(2) b2 unfolding nw by (auto simp: succeeded_append)
          have c3: "length cp' \<le> length cp" using a(3) b3 by linarith
          have c4: "clock w \<le> clock w'" using a(4) b4 by linarith
          have c5: "\<forall>(q, t, c) \<in> set (new_probes w w').
              q \<in> set cp \<and> q \<le> 65535 \<and> c = connect_ex E q t \<and> clock w \<le> t \<and> t \<le> clock w'"
          proof -
            have "\<forall>(q, t, c) \<in> set (new_probes w w1).
                q \<in> set cp \<and> q \<le> 65535 \<and> c = connect_ex E q t \<and> clock w \<le> t \<and> t \<le> clock w'"
              using a(5) b4 by fastforce
            moreover have "\<forall>(q, t, c) \<in> set (new_probes w1 w').
                q \<in> set cp \<and> q \<le> 65535 \<and> c = connect_ex E q t \<and> clock w \<le> t \<and> t \<le> clock w'"
              using b5 a(4) sub by fastforce
            ultimately show ?thesis unfolding nw by auto
          qed
          have c7: "r = Inr False \<longrightarrow> cp' \<noteq> [] \<and> (\<exists>u. until = Some u \<and> num_ge (clock w') u)"
            by (rule b7)
          have c8: "r = Inl UnboundLocalError \<longrightarrow> until = None \<and> cp \<noteq> [] \<and> cp' = cp \<and> w' = w"
            using b8 Some by simp
          have c10: "r = Inl OverflowError \<longrightarrow> (\<exists>p \<in> set cp. 65535 < p)"
            using b10 sub by auto
          have c11: "r = Inl OSError \<longrightarrow>
              (\<exists>p \<in> set cp. \<exists>t t'. connect_ex E p t = 0 \<and> shutdown_raises E p t')"
            using b11 sub by blast
          have c12: "r = Inl OSError \<or> r = Inl OverflowError \<longrightarrow>
              (\<exists>k. sockets w' = sockets w @ replicate k SockClosed @ [SockOpen])"
          proof
            assume "r = Inl OSError \<or> r = Inl OverflowError"
            with b12 obtain k where "sockets w' = sockets w1 @ replicate k SockClosed @ [SockOpen]"
              by blast
            then have "sockets w' = sockets w @ replicate (length cp + k) SockClosed @ [SockOpen]"
              using s1 by (simp add: replicate_add)
            then show "\<exists>k. sockets w' = sockets w @ replicate k SockClosed @ [SockOpen]" by blast
          qed
          have c13: "r = Inr True \<or> r = Inr False \<or> r = Inl UnboundLocalError \<longrightarrow>
              sockets w' = sockets w @ replicate (length (new_probes w w')) SockClosed"
            using b13 s1 l1 unfolding nw by (auto simp: replicate_add)
          show ?thesis
            unfolding res loop_inv_def prod.case
            by (intro conjI c1 c2 c3 c4 c5 b6 c7 c8 b9 c10 c11 c12 c13)
        qed
      qed
    qed
  qed
qed

lemma loop_inv_facts:
  assumes "wait_loop E until cp w = Some (r, cp', w')"
  shows "probes w' = probes w @ new_probes w w'"
    and "set cp' = set cp - succeeded (new_probes w w')"
    and "length cp' \<le> length cp"
    and "clock w \<le> clock w'"
    and "\<forall>(q, t, c) \<in> set (new_probes w w').
           q \<in> set cp \<and> q \<le> 65535 \<and> c = connect_ex E q t \<and> clock w \<le> t \<and> t \<le> clock w'"
    and "r = Inr True \<longrightarrow> cp' = []"
    and "r = Inr False \<longrightarrow> cp' \<noteq> [] \<and> (\<exists>u. until = Some u \<and> num_ge (clock w') u)"
    and "r = Inl UnboundLocalError \<longrightarrow> until = None \<and> cp \<noteq> [] \<and> cp' = cp \<and> w' = w"
    and "r = Inr True \<or> r = Inr False \<or> r = Inl UnboundLocalError
           \<or> r = Inl OSError \<or> r = Inl OverflowError"
    and "r = Inl OverflowError \<longrightarrow> (\<exists>p \<in> set cp. 65535 < p)"
    and "r = Inl OSError \<longrightarrow>
           (\<exists>p \<in> set cp. \<exists>t t'. connect_ex E p t = 0 \<and> shutdown_raises E p t')"
    and "r = Inl OSError \<or> r = Inl OverflowError \<longrightarrow>
           (\<exists>k. sockets w' = sockets w @ replicate k SockClosed @ [SockOpen])"
    and "r = Inr True \<or> r = Inr False \<or> r = Inl UnboundLocalError \<longrightarrow>
           sockets w' = sockets w @ replicate (length (new_probes w w')) SockClosed"
  using wait_loop_inv [OF assms] unfolding loop_inv_def prod.case by blast+

text \<open>
  Induction for a finite deadline: every round that starts before the deadline moves the
  clock on by at least the sleep.
\<close>

lemma finite_deadline_induct:
  fixes u :: rat and P :: "port list \<Rightarrow> world \<Rightarrow> bool"
  assumes step: "\<And>cp w. (\<And>cp1 w1. clock w < u \<Longrightarrow> clock w + 1/8 \<le> clock w1 \<Longrightarrow> P cp1 w1) \<Longrightarrow> P cp w"
  shows "P cp w"
proof (induction "nat \<lceil>(u - clock w) * 8\<rceil>" arbitrary: cp w rule: less_induct)
  case less
  show ?case
  proof (rule step)
    fix cp1 :: "port list" and w1 :: world
    assume a: "clock w < u" "clock w + 1/8 \<le> clock w1"
    have "(u - clock w1) * 8 \<le> (u - clock w) * 8 - 1" using a(2) by simp
    then have "\<lceil>(u - clock w1) * 8\<rceil> \<le> \<lceil>(u - clock w) * 8 - 1\<rceil>" by (rule ceiling_mono)
    then have le: "\<lceil>(u - clock w1) * 8\<rceil> < \<lceil>(u - clock w) * 8\<rceil>" by simp
    have "0 < (u - clock w) * 8" using a(1) by simp
    then have "0 < \<lceil>(u - clock w) * 8\<rceil>" by simp
    with le have "nat \<lceil>(u - clock w1) * 8\<rceil> < nat \<lceil>(u - clock w) * 8\<rceil>" by simp
    then show "P cp1 w1" by (rule less)
  qed
qed

lemma sleep_facts:
  "probes (sleep d w) = probes w" "sockets (sleep d w) = sockets w"
  "clock (sleep d w) = clock w + d" "new_probes (sleep d w) w' = new_probes w w'"
  "new_probes w0 (sleep d w) = new_probes w0 w"
  by (simp_all add: sleep_def new_probes_def)



lemma finite_deadline_world_induct:
  fixes u :: rat and P :: "world \<Rightarrow> bool"
  assumes "\<And>w. (\<And>w1. clock w < u \<Longrightarrow> clock w + 1/8 \<le> clock w1 \<Longrightarrow> P w1) \<Longrightarrow> P w"
  shows "P w"
  using assms by (rule finite_deadline_induct [where P = "\<lambda>cp. P" and cp = "[]" and u = u])

text \<open>
  While every pending port refuses, each round probes every one of them, and the instants
  before the deadline are never further from a probe than one round and one sleep.
\<close>

lemma wait_loop_refusing:
  assumes ref: "\<forall>p \<in> set cp. p \<le> 65535 \<and> (\<forall>t. connect_ex E p t \<noteq> 0)"
    and L: "\<forall>p t. connect_duration E p t \<le> L"
    and ne: "cp \<noteq> []"
  shows "\<exists>w'. wait_loop E (Some (Finite u)) cp w = Some (Inr False, cp, w')
           \<and> u \<le> clock w'
           \<and> (\<forall>p \<in> set cp. \<forall>t. clock w \<le> t \<and> t < u \<longrightarrow>
                 (\<exists>t'. (p, t', connect_ex E p t') \<in> set (new_probes w w')
                    \<and> t - 1/8 - of_nat L / 1000 * of_nat (length cp) < t'
                    \<and> t' \<le> t + of_nat L / 1000 * of_nat (length cp)))"
proof (induction w rule: finite_deadline_world_induct [where u = u])
  case (1 w)
  let ?B = "(of_nat L :: rat) / 1000 * of_nat (length cp)"
  show ?case
  proof (cases "u \<le> clock w")
    case True
    with ne have "wait_loop E (Some (Finite u)) cp w = Some (Inr False, cp, w)"
      by (simp add: wait_loop_expired)
    with True show ?thesis by auto
  next
    case before: False
    then have nb: "\<not> num_ge (clock w) (Finite u)" by simp
    obtain x cp1 w1 where rnd: "probe_ports E cp (cp, w) = (x, cp1, w1)"
      by (cases "probe_ports E cp (cp, w)") auto
    from probe_ports_refusing [OF rnd ref] have x: "x = None" "cp1 = cp" by simp_all
    note a = probe_ports_facts [OF rnd]
    have m1: "map fst (new_probes w w1) = cp" using a(6) x by simp
    have t1: "clock w1 \<le> clock w + ?B"
      by (rule probe_ports_clock [OF rnd L])
    let ?w2 = "sleep (1/8) w1"
    have eq: "wait_loop E (Some (Finite u)) cp w = wait_loop E (Some (Finite u)) cp ?w2"
      using wait_loop_round [OF ne nb] rnd x by simp
    have adv: "clock w + 1/8 \<le> clock ?w2"
      using a(4) by (simp add: sleep_facts)
    from "1" [of ?w2] before adv obtain w' where
      rec: "wait_loop E (Some (Finite u)) cp ?w2 = Some (Inr False, cp, w')" and
      dl: "u \<le> clock w'" and
      poll: "\<forall>p \<in> set cp. \<forall>t. clock ?w2 \<le> t \<and> t < u \<longrightarrow>
                 (\<exists>t'. (p, t', connect_ex E p t') \<in> set (new_probes ?w2 w')
                    \<and> t - 1/8 - ?B < t' \<and> t' \<le> t + ?B)"
      by (auto simp: not_le)
    note g = loop_inv_facts [OF rec]
    have pr: "probes w' = probes w1 @ new_probes w1 w'"
      using g(1) by (simp add: sleep_facts)
    from new_probes_trans [OF a(1) pr]
    have nw: "new_probes w w' = new_probes w w1 @ new_probes w1 w'" by blast
    have "\<forall>p \<in> set cp. \<forall>t. clock w \<le> t \<and> t < u \<longrightarrow>
            (\<exists>t'. (p, t', connect_ex E p t') \<in> set (new_probes w w')
               \<and> t - 1/8 - ?B < t' \<and> t' \<le> t + ?B)"
    proof (intro ballI allI impI)
      fix p t
      assume p: "p \<in> set cp" and t: "clock w \<le> t \<and> t < u"
      show "\<exists>t'. (p, t', connect_ex E p t') \<in> set (new_probes w w')
               \<and> t - 1/8 - ?B < t' \<and> t' \<le> t + ?B"
      proof (cases "clock ?w2 \<le> t")
        case True
        with poll p t obtain t' where
          "(p, t', connect_ex E p t') \<in> set (new_probes ?w2 w')"
          "t - 1/8 - ?B < t'" "t' \<le> t + ?B"
          by blast
        then show ?thesis unfolding nw by (auto simp: sleep_facts)
      next
        case False
        then have lt: "t < clock w1 + 1/8" by (simp add: sleep_facts)
        from p m1 have "p \<in> fst ` set (new_probes w w1)"
          by (metis list.set_map)
        then obtain t' c where mem: "(p, t', c) \<in> set (new_probes w w1)" by force
        with a(5) have c: "c = connect_ex E p t'" and b1: "clock w \<le> t'" and b2: "t' \<le> clock w1"
          by fastforce+
        have "t - 1/8 - ?B < t'" using lt t1 b1 by linarith
        moreover have "t' \<le> t + ?B" using b2 t1 t by linarith
        ultimately show ?thesis using mem c unfolding nw by auto
      qed
    qed
    with eq rec dl show ?thesis by simp
  qed
qed



text \<open>The loop reads the environment only through the connection attempts.\<close>

lemma probe_port_is_alive: "probe_port (E\<lparr>is_alive := a\<rparr>) p cw = probe_port E p cw"
  by (simp add: probe_port_def socket_new_def sock_connect_ex_def sock_shutdown_def
      sock_close_def del_sock_def Let_def)

lemma probe_ports_is_alive: "probe_ports (E\<lparr>is_alive := a\<rparr>) ps cw = probe_ports E ps cw"
  by (induction ps arbitrary: cw)
     (simp_all add: probe_port_is_alive split: prod.splits option.splits)

lemma wait_loop_same_probes:
  assumes "wait_loop E1 until cp w = Some res"
    and "\<forall>ps cw. probe_ports E1 ps cw = probe_ports E2 ps cw"
  shows "wait_loop E2 until cp w = Some res"
  using assms
proof (induction rule: wait_loop.raw_induct [rotated 1, consumes 1, case_names step])
  case (step f E1 until cp w res)
  note IH = step(1) and body = step(2) and same = step(3)
  show ?case
  proof (cases "cp = []")
    case True
    with body show ?thesis by (simp add: wait_loop_empty)
  next
    case ne: False
    show ?thesis
    proof (cases until)
      case None
      with ne body show ?thesis by (simp add: wait_loop_unbound)
    next
      case (Some u)
      show ?thesis
      proof (cases "num_ge (clock w) u")
        case True
        with ne Some body show ?thesis by (simp add: wait_loop_expired)
      next
        case nb: False
        obtain x cp1 w1 where rnd: "probe_ports E1 cp (cp, w) = (x, cp1, w1)"
          by (cases "probe_ports E1 cp (cp, w)") auto
        then have rnd2: "probe_ports E2 cp (cp, w) = (x, cp1, w1)" using same by simp
        show ?thesis
        proof (cases x)
          case (Some e)
          with body ne \<open>until = Some u\<close> nb rnd have "res = (Inl e, cp1, w1)" by simp
          with wait_loop_raise [OF ne nb, of E2 e cp1 w1] rnd2 Some \<open>until = Some u\<close>
          show ?thesis by simp
        next
          case None
          with body ne \<open>until = Some u\<close> nb rnd
          have "f E1 until cp1 (sleep (1/8) w1) = Some res" by simp
          from IH [OF this same] have "wait_loop E2 until cp1 (sleep (1/8) w1) = Some res" .
          with wait_loop_round [OF ne nb, of E2 cp1 w1] rnd2 None \<open>until = Some u\<close>
          show ?thesis by simp
        qed
      qed
    qed
  qed
qed

lemma wait_loop_is_alive:
  "wait_loop (E\<lparr>is_alive := a\<rparr>) until cp w = wait_loop E until cp w"
proof (cases "wait_loop (E\<lparr>is_alive := a\<rparr>) until cp w")
  case (Some res)
  from wait_loop_same_probes [OF Some, of E] show ?thesis
    using Some by (simp add: probe_ports_is_alive)
next
  case None
  show ?thesis
  proof (cases "wait_loop E until cp w")
    case None
    with \<open>wait_loop (E\<lparr>is_alive := a\<rparr>) until cp w = None\<close> show ?thesis by simp
  next
    case (Some res)
    from wait_loop_same_probes [OF Some, of "E\<lparr>is_alive := a\<rparr>"]
    have "wait_loop (E\<lparr>is_alive := a\<rparr>) until cp w = Some res"
      by (simp add: probe_ports_is_alive)
    with None show ?thesis by simp
  qed
qed

lemma configured_ports_nonempty: "configured_ports d cfg = Some ports \<Longrightarrow> ports \<noteq> []"
  by (cases d) (auto simp: configured_ports_def split: option.splits)

lemma wait_until_running_ports:
  "configured_ports d cfg = Some ports \<Longrightarrow>
   wait_until_running d E cfg timeout w = ports_wait_until_running E ports timeout w"
  by (cases d)
     (auto simp: configured_ports_def wait_until_running_def SaltCliMinion_wait_until_running_def
        SaltCliMaster_wait_until_running_def split: option.splits)

lemma wait_until_running_loop:
  "configured_ports d cfg = Some ports \<Longrightarrow>
   wait_until_running d E cfg (Some t) w = wait_loop E (Some (num_add (clock w) t)) (remdups ports) w"
  by (simp add: wait_until_running_ports ports_wait_until_running_def)


lemmas run_defs = wait_until_running_def SaltCliMinion_wait_until_running_def
  SaltCliMaster_wait_until_running_def example_config_def ports_wait_until_running_def
  wait_loop.simps probe_port_def socket_new_def sock_connect_ex_def sock_shutdown_def
  sock_close_def del_sock_def sleep_def Let_def world0_def

section \<open>Lemmas about the relay loop\<close>

lemma try_suite_warnings: "warnings (snd (try_suite E prefix ev s)) = warnings s"
  by (simp add: try_suite_def split: qevent.splits qvalue.splits option.splits sum.splits)

lemma try_suite_raises:
  assumes "try_suite E prefix ev s = (Inl e, s')"
    and "\<forall>e. ev = GetRaises e \<longrightarrow> stops_relay e \<or> is_Exception e"
    and "\<forall>d e. msgpack_dumps E d = Inl e \<longrightarrow> stops_relay e \<or> is_Exception e"
    and "\<forall>n e. sock_sendall E n = Some e \<longrightarrow> stops_relay e \<or> is_Exception e"
  shows "stops_relay e \<or> is_Exception e"
  using assms
  by (auto simp: try_suite_def str_add_def
      split: qevent.splits qvalue.splits option.splits sum.splits pyval.splits)

lemma relay_loop_exit:
  assumes "\<forall>e. GetRaises e \<in> set queue \<longrightarrow> stops_relay e \<or> is_Exception e"
    and "\<forall>d e. msgpack_dumps E d = Inl e \<longrightarrow> stops_relay e \<or> is_Exception e"
    and "\<forall>n e. sock_sendall E n = Some e \<longrightarrow> stops_relay e \<or> is_Exception e"
  shows "fst (relay_loop E prefix queue s) = Returned \<or> fst (relay_loop E prefix queue s) = Blocked"
  using assms(1)
proof (induction queue arbitrary: s)
  case Nil
  show ?case by simp
next
  case (Cons ev queue)
  have rest: "fst (relay_loop E prefix queue t) = Returned
      \<or> fst (relay_loop E prefix queue t) = Blocked" for t
    using Cons.IH Cons.prems by simp
  obtain x s' where ts: "try_suite E prefix ev s = (x, s')"
    by (cases "try_suite E prefix ev s") blast
  show ?case
  proof (cases x)
    case (Inr st)
    with ts rest show ?thesis by (cases st) simp_all
  next
    case (Inl e)
    have "\<forall>e. ev = GetRaises e \<longrightarrow> stops_relay e \<or> is_Exception e"
      using Cons.prems by simp
    from try_suite_raises [OF ts [unfolded Inl] this assms(2) assms(3)]
    have "stops_relay e \<or> is_Exception e" .
    with ts Inl rest show ?thesis by auto
  qed
qed

lemma try_suite_well_formed:
  assumes "has_str_msg d" and "msgpack_dumps E (prefixed prefix d) = Inr m"
    and "sock_sendall E (sendall_calls s) = None"
  shows "try_suite E prefix (Get (QObject d)) s =
     (Inr Next, s\<lparr>forwarded := forwarded s @ [m], sendall_calls := Suc (sendall_calls s)\<rparr>)"
  using assms
  by (auto simp: try_suite_def has_str_msg_def prefixed_def str_add_def
      split: option.splits pyval.splits)

lemma relay_loop_well_formed:
  assumes "\<forall>n. sock_sendall E n = None"
    and "\<forall>d \<in> set ds. has_str_msg d \<and> msgpack_dumps E (prefixed prefix d) = Inr (enc (prefixed prefix d))"
  shows "relay_loop E prefix (map (\<lambda>d. Get (QObject d)) ds @ Get QNone # rest) s =
     (Returned, s\<lparr>forwarded := forwarded s @ map (\<lambda>d. enc (prefixed prefix d)) ds,
                  sendall_calls := sendall_calls s + length ds\<rparr>)"
  using assms(2)
proof (induction ds arbitrary: s)
  case Nil
  show ?case by (simp add: try_suite_def)
next
  case (Cons d ds)
  have d: "has_str_msg d" "msgpack_dumps E (prefixed prefix d) = Inr (enc (prefixed prefix d))"
    using Cons.prems by simp_all
  have s: "sock_sendall E (sendall_calls s) = None" using assms(1) by simp
  have ih: "relay_loop E prefix (map (\<lambda>d. Get (QObject d)) ds @ Get QNone # rest) t =
     (Returned, t\<lparr>forwarded := forwarded t @ map (\<lambda>d. enc (prefixed prefix d)) ds,
                  sendall_calls := sendall_calls t + length ds\<rparr>)" for t
    using Cons.IH Cons.prems by simp
  show ?case
    by (simp add: try_suite_well_formed [OF d s] ih)
qed

lemma prefixed_msg:
  "map_of d ''msg'' = Some (PyStr m) \<Longrightarrow>
   map_of (prefixed prefix d) ''msg'' = Some (PyStr (prefix @ m))"
  by (simp add: prefixed_def update_conv')


section \<open>Properties\<close>

text \<open>
  C6. For every integer verbosity, \<open>get_log_level_name\<close> returns a level name: 2 gives
  warning, 3 info, 4 debug, 5 trace, 6 and everything above gives garbage, and everything
  up to 1 gives warning. The function is total and never returns \<^verbatim>\<open>None\<close>.
\<close>

theorem get_log_level_name_total:
  "get_log_level_name v =
     Some (if v \<le> 2 then ''warning''
           else if v = 3 then ''info''
           else if v = 4 then ''debug''
           else if v = 5 then ''trace''
           else ''garbage'')"
  by (simp add: get_log_level_name_def HANDLED_LEVELS_def)




text \<open>
  C3 (as the code has it). The port-probing \<open>wait_until_running\<close> of either class never
  reads the liveness of the process: changing it changes nothing. When every configured
  port refuses every attempt, as after the process has exited, the call keeps polling
  until the deadline: every configured port is probed again and again, so that no instant
  before the deadline is further from a probe of it than one sleep of 125 ms and the
  connection time of one round, and false is returned only once the whole timeout has
  elapsed.
\<close>

theorem wait_until_running_polls_until_deadline:
  assumes cfg: "configured_ports d cfg = Some ports"
    and dead: "\<forall>p \<in> set ports. p \<le> 65535 \<and> (\<forall>t. connect_ex E p t \<noteq> 0)"
    and L: "\<forall>p t. connect_duration E p t \<le> L"
  shows "(\<exists>w'. wait_until_running d E cfg (Some (Finite T)) w = Some (Inr False, remdups ports, w')
           \<and> clock w + T \<le> clock w'
           \<and> (\<forall>p \<in> set ports. \<forall>t. clock w \<le> t \<and> t < clock w + T \<longrightarrow>
                 (\<exists>t'. (p, t', connect_ex E p t') \<in> set (new_probes w w')
                    \<and> t - 1/8 - of_nat L / 1000 * of_nat (length (remdups ports)) < t'
                    \<and> t' \<le> t + of_nat L / 1000 * of_nat (length (remdups ports)))))
    \<and> wait_until_running d (E\<lparr>is_alive := a\<rparr>) cfg timeout w
        = wait_until_running d E cfg timeout w"
proof
  have ref: "\<forall>p \<in> set (remdups ports). p \<le> 65535 \<and> (\<forall>t. connect_ex E p t \<noteq> 0)"
    using dead by simp
  have ne: "remdups ports \<noteq> []"
    using configured_ports_nonempty [OF cfg] by simp
  from wait_loop_refusing [OF ref L ne, of "clock w + T" w]
  show "\<exists>w'. wait_until_running d E cfg (Some (Finite T)) w = Some (Inr False, remdups ports, w')
           \<and> clock w + T \<le> clock w'
           \<and> (\<forall>p \<in> set ports. \<forall>t. clock w \<le> t \<and> t < clock w + T \<longrightarrow>
                 (\<exists>t'. (p, t', connect_ex E p t') \<in> set (new_probes w w')
                    \<and> t - 1/8 - of_nat L / 1000 * of_nat (length (remdups ports)) < t'
                    \<and> t' \<le> t + of_nat L / 1000 * of_nat (length (remdups ports))))"
    by (simp add: wait_until_running_loop [OF cfg])
next
  show "wait_until_running d (E\<lparr>is_alive := a\<rparr>) cfg timeout w
        = wait_until_running d E cfg timeout w"
    by (simp add: wait_until_running_ports [OF cfg] ports_wait_until_running_def
        wait_loop_is_alive)
qed

theorem wait_until_running_polls_until_deadline_witness:
  "configured_ports SaltCliMinion example_config = Some [4507]
   \<and> (\<forall>p t. connect_duration refusing_env p t \<le> 0)
   \<and> (\<exists>w'. wait_until_running SaltCliMinion refusing_env example_config (Some (Finite 1)) world0
            = Some (Inr False, [4507], w')
         \<and> clock world0 + 1 \<le> clock w'
         \<and> (\<exists>t'. (4507, t', connect_ex refusing_env 4507 t') \<in> set (new_probes world0 w')
               \<and> 1/2 - 1/8 < t' \<and> t' \<le> 1/2))"
proof -
  have cfg: "configured_ports SaltCliMinion example_config = Some [4507]"
    by (simp add: configured_ports_def example_config_def)
  have dead: "\<forall>p \<in> set [4507]. p \<le> 65535 \<and> (\<forall>t. connect_ex refusing_env p t \<noteq> 0)"
    by (simp add: refusing_env_def)
  have L: "\<forall>p t. connect_duration refusing_env p t \<le> 0"
    by (simp add: refusing_env_def)
  from wait_until_running_polls_until_deadline
    [OF cfg dead L, where T = 1 and w = world0, THEN conjunct1]
  obtain w' where
    r: "wait_until_running SaltCliMinion refusing_env example_config (Some (Finite 1)) world0
            = Some (Inr False, [4507], w')" and
    d: "clock world0 + 1 \<le> clock w'" and
    p: "\<forall>t. clock world0 \<le> t \<and> t < clock world0 + 1 \<longrightarrow>
          (\<exists>t'. (4507, t', connect_ex refusing_env 4507 t') \<in> set (new_probes world0 w')
             \<and> t - 1/8 < t' \<and> t' \<le> t)"
    by auto
  have "clock world0 \<le> 1/2 \<and> (1/2 :: rat) < clock world0 + 1" by (simp add: world0_def)
  with p have "\<exists>t'. (4507, t', connect_ex refusing_env 4507 t') \<in> set (new_probes world0 w')
      \<and> 1/2 - 1/8 < t' \<and> t' \<le> 1/2"
    by blast
  with cfg L r d show ?thesis by blast
qed

theorem wait_until_running_dead_process_counterexample:
  "\<not> is_alive refusing_env 0
   \<and> wait_until_running SaltCliMinion refusing_env example_config (Some (Finite 1)) world0 =
       Some (Inr False, [4507],
         \<lparr>clock = 1,
          sockets = [SockClosed, SockClosed, SockClosed, SockClosed,
                     SockClosed, SockClosed, SockClosed, SockClosed],
          probes = [(4507, 0, 111), (4507, 1/8, 111), (4507, 1/4, 111), (4507, 3/8, 111),
                    (4507, 1/2, 111), (4507, 5/8, 111), (4507, 3/4, 111), (4507, 7/8, 111)]\<rparr>)
   \<and> \<not> ((1 :: rat) - clock world0 \<le> 1/8)"
  by (simp add: run_defs refusing_env_def)




text \<open>
  C9. When the peer accepts the connection and resets it, \<^verbatim>\<open>sock.shutdown\<close> raises: the call
  ends by raising \<^verbatim>\<open>OSError\<close>, \<^verbatim>\<open>sock.close()\<close> and \<^verbatim>\<open>del sock\<close> are not reached, and the socket
  is still open when the call ends. On the other paths the socket is released: closed
  after a connection that is shut down, finalised by \<^verbatim>\<open>del sock\<close> after a refusal.
\<close>

theorem wait_until_running_leaves_reset_socket_open:
  "wait_until_running SaltCliMinion resetting_env example_config (Some (Finite 5)) world0 =
     Some (Inl OSError, [], \<lparr>clock = 0, sockets = [SockOpen], probes = [(4507, 0, 0)]\<rparr>)
   \<and> wait_until_running SaltCliMinion listening_env example_config (Some (Finite 5)) world0 =
     Some (Inr True, [], \<lparr>clock = 1/8, sockets = [SockClosed], probes = [(4507, 0, 0)]\<rparr>)
   \<and> wait_until_running SaltCliMinion refusing_env example_config (Some (Finite (1/8))) world0 =
     Some (Inr False, [4507], \<lparr>clock = 1/8, sockets = [SockClosed], probes = [(4507, 0, 111)]\<rparr>)"
  by (simp add: run_defs resetting_env_def listening_env_def refusing_env_def)

text \<open>
  C10. Called with the default \<^verbatim>\<open>timeout=None\<close> and a non-empty set of ports, the
  port-probing \<open>wait_until_running\<close> never assigns \<open>until\<close>; the first iteration reads it
  and the call raises \<^verbatim>\<open>UnboundLocalError\<close> instead of returning a boolean, before any
  connection attempt. Both the minion and the master variant do so whenever their ports
  are configured.
\<close>

theorem wait_until_running_without_timeout_raises:
  "(ports \<noteq> [] \<longrightarrow>
      ports_wait_until_running E ports None w = Some (Inl UnboundLocalError, remdups ports, w))
   \<and> (cfg ''pytest_port'' = Some p \<longrightarrow>
      SaltCliMinion_wait_until_running E cfg None w = Some (Inl UnboundLocalError, [p], w))
   \<and> (cfg ''ret_port'' = Some a \<and> cfg ''publish_port'' = Some b \<and> cfg ''pytest_port'' = Some p \<longrightarrow>
      SaltCliMaster_wait_until_running E cfg None w =
        Some (Inl UnboundLocalError, remdups [a, b, p], w))"
proof -
  have gen: "ps \<noteq> [] \<Longrightarrow>
      ports_wait_until_running E ps None w = Some (Inl UnboundLocalError, remdups ps, w)" for ps
  proof -
    assume "ps \<noteq> []"
    then have "remdups ps \<noteq> []" by simp
    then show ?thesis
      by (simp add: ports_wait_until_running_def wait_loop_unbound)
  qed
  have "cfg ''pytest_port'' = Some p \<longrightarrow>
      SaltCliMinion_wait_until_running E cfg None w = Some (Inl UnboundLocalError, [p], w)"
    using gen [of "[p]"] by (simp add: SaltCliMinion_wait_until_running_def)
  moreover have "cfg ''ret_port'' = Some a \<and> cfg ''publish_port'' = Some b
      \<and> cfg ''pytest_port'' = Some p \<longrightarrow>
      SaltCliMaster_wait_until_running E cfg None w =
        Some (Inl UnboundLocalError, remdups [a, b, p], w)"
    using gen [of "[a, b, p]"] by (simp add: SaltCliMaster_wait_until_running_def)
  ultimately show ?thesis using gen [of ports] by blast
qed

theorem wait_until_running_without_timeout_raises_witness:
  "example_config ''ret_port'' = Some 4506 \<and> example_config ''publish_port'' = Some 4505
   \<and> example_config ''pytest_port'' = Some 4507
   \<and> SaltCliMinion_wait_until_running listening_env example_config None world0 =
        Some (Inl UnboundLocalError, [4507], world0)
   \<and> SaltCliMaster_wait_until_running listening_env example_config None world0 =
        Some (Inl UnboundLocalError, [4506, 4505, 4507], world0)"
proof -
  have h: "example_config ''ret_port'' = Some 4506" "example_config ''publish_port'' = Some 4505"
    "example_config ''pytest_port'' = Some 4507"
    by (simp_all add: example_config_def)
  show ?thesis
    using wait_until_running_without_timeout_raises
      [where cfg = example_config and p = 4507 and a = 4506 and b = 4505
         and E = listening_env and w = world0 and ports = "[4507]"] h
    by simp
qed

text \<open>
  C4. The teardown of \<open>salt_master\<close> is not idempotent: run on a handle whose process has
  been waited for (as after a first teardown), \<^verbatim>\<open>os.kill\<close> raises \<^verbatim>\<open>OSError\<close> and the teardown
  raises with it. It raises exactly on such handles. The teardown of \<open>cli_salt_master\<close>
  catches that error: on every handle it finishes with the process waited for, and it
  delivers a signal only to a process that is still running.
\<close>

theorem salt_master_teardown_twice_raises:
  "salt_master_teardown \<lparr>proc = Running, sigterms = 0\<rparr> = Done \<lparr>proc = Reaped, sigterms = 1\<rparr>
   \<and> salt_master_teardown \<lparr>proc = Reaped, sigterms = 1\<rparr> = Raises OSError
   \<and> (salt_master_teardown h = Raises OSError) = (proc h = Reaped)
   \<and> cli_salt_master_teardown h =
       Done (h\<lparr>proc := Reaped,
               sigterms := (if proc h = Running then Suc (sigterms h) else sigterms h)\<rparr>)"
proof -
  have a: "(salt_master_teardown h = Raises OSError) = (proc h = Reaped)"
    by (cases "proc h")
       (simp_all add: salt_master_teardown_def os_kill_def join_def terminate_def)
  have b: "cli_salt_master_teardown h =
       Done (h\<lparr>proc := Reaped,
               sigterms := (if proc h = Running then Suc (sigterms h) else sigterms h)\<rparr>)"
    by (cases "proc h")
       (simp_all add: cli_salt_master_teardown_def os_kill_def join_def terminate_def)
  have c: "salt_master_teardown \<lparr>proc = Running, sigterms = 0\<rparr> = Done \<lparr>proc = Reaped, sigterms = 1\<rparr>"
    "salt_master_teardown \<lparr>proc = Reaped, sigterms = 1\<rparr> = Raises OSError"
    by (simp_all add: salt_master_teardown_def os_kill_def join_def terminate_def)
  from a b c show ?thesis by blast
qed

text \<open>
  C8. A helper-probe job returns true exactly when the wait for the helper returned with
  return code 0. A helper that exceeds its timeout makes the job return false without
  raising; that outcome is recorded differently from every exit with a return code (the
  warning logged differs), although the boolean is the same as for a nonzero exit. The job
  spawns exactly one helper process: it does not retry.
\<close>

theorem salt_call_true_iff_exit_zero:
  "fst (salt_call helper_wait timeout_kw s)
     = (helper_wait (spawned s) (case timeout_kw of None \<Rightarrow> 5 | Some t \<Rightarrow> t) = Finished 0)
   \<and> (helper_wait (spawned s) (case timeout_kw of None \<Rightarrow> 5 | Some t \<Rightarrow> t) = TimedProcTimeoutError
        \<longrightarrow> salt_call helper_wait timeout_kw s
              = (False, \<lparr>spawned = Suc (spawned s), logged = logged s @ [LogRunning, LogTimedOut]\<rparr>))
   \<and> (helper_wait (spawned s) (case timeout_kw of None \<Rightarrow> 5 | Some t \<Rightarrow> t) = Finished rc
        \<longrightarrow> salt_call helper_wait timeout_kw s
              = (rc = 0, \<lparr>spawned = Suc (spawned s), logged = logged s @ [LogRunning, LogFinished rc]\<rparr>)
            \<and> salt_call helper_wait timeout_kw s
              \<noteq> (False, \<lparr>spawned = Suc (spawned s), logged = logged s @ [LogRunning, LogTimedOut]\<rparr>))
   \<and> spawned (snd (salt_call helper_wait timeout_kw s)) = Suc (spawned s)"
proof (cases s)
  case (fields n l)
  show ?thesis
    by (cases "helper_wait n (case timeout_kw of None \<Rightarrow> 5 | Some t \<Rightarrow> t)")
       (simp_all add: fields salt_call_def executor_run_def TimedProc_def log_warning_def Let_def)
qed

theorem salt_call_true_iff_exit_zero_witness:
  "salt_call (\<lambda>k t. TimedProcTimeoutError) (Some 5) \<lparr>spawned = 0, logged = []\<rparr>
     = (False, \<lparr>spawned = 1, logged = [LogRunning, LogTimedOut]\<rparr>)
   \<and> salt_call (\<lambda>k t. Finished 1) (Some 5) \<lparr>spawned = 0, logged = []\<rparr>
     = (False, \<lparr>spawned = 1, logged = [LogRunning, LogFinished 1]\<rparr>)
   \<and> salt_call (\<lambda>k t. Finished 0) None \<lparr>spawned = 0, logged = []\<rparr>
     = (True, \<lparr>spawned = 1, logged = [LogRunning, LogFinished 0]\<rparr>)"
  using salt_call_true_iff_exit_zero
      [of "\<lambda>k t. TimedProcTimeoutError" "Some 5" "\<lparr>spawned = 0, logged = []\<rparr>" 0]
    salt_call_true_iff_exit_zero
      [of "\<lambda>k t. Finished 1" "Some 5" "\<lparr>spawned = 0, logged = []\<rparr>" 1]
    salt_call_true_iff_exit_zero
      [of "\<lambda>k t. Finished 0" None "\<lparr>spawned = 0, logged = []\<rparr>" 0]
  by simp

text \<open>
  C2 (as the code has it). For a queue of \<open>N\<close> records followed by the sentinel, when the
  connection is made, every record has a string \<open>msg\<close> and can be encoded, and no write to
  the socket fails, the relay forwards exactly the \<open>N\<close> encodings, in queue order, each of
  the record with the prefix put before its \<open>msg\<close>; it logs nothing, stops at the sentinel
  without forwarding it and reads nothing that follows it.
\<close>

theorem process_queue_forwards_well_formed_records:
  assumes "sock_connect E port = None"
    and "\<forall>n. sock_sendall E n = None"
    and "\<forall>d \<in> set ds. has_str_msg d \<and> msgpack_dumps E (prefixed prefix d) = Inr (enc (prefixed prefix d))"
  shows "process_queue E port prefix (map (\<lambda>d. Get (QObject d)) ds @ Get QNone # rest) =
      (Returned, \<lparr>forwarded = map (\<lambda>d. enc (prefixed prefix d)) ds, warnings = [],
                  sendall_calls = length ds\<rparr>)
    \<and> (\<forall>d \<in> set ds. \<exists>m. map_of d ''msg'' = Some (PyStr m)
          \<and> map_of (prefixed prefix d) ''msg'' = Some (PyStr (prefix @ m)))"
proof
  show "process_queue E port prefix (map (\<lambda>d. Get (QObject d)) ds @ Get QNone # rest) =
      (Returned, \<lparr>forwarded = map (\<lambda>d. enc (prefixed prefix d)) ds, warnings = [],
                  sendall_calls = length ds\<rparr>)"
    using assms(1) relay_loop_well_formed [OF assms(2) assms(3), of rest relay0]
    by (simp add: process_queue_def relay0_def)
next
  show "\<forall>d \<in> set ds. \<exists>m. map_of d ''msg'' = Some (PyStr m)
          \<and> map_of (prefixed prefix d) ''msg'' = Some (PyStr (prefix @ m))"
  proof
    fix d assume "d \<in> set ds"
    with assms(3) have "has_str_msg d" by simp
    then obtain m where "map_of d ''msg'' = Some (PyStr m)"
      by (auto simp: has_str_msg_def split: option.splits pyval.splits)
    with prefixed_msg [OF this, of prefix]
    show "\<exists>m. map_of d ''msg'' = Some (PyStr m)
          \<and> map_of (prefixed prefix d) ''msg'' = Some (PyStr (prefix @ m))"
      by simp
  qed
qed

theorem process_queue_forwards_well_formed_records_witness:
  "sock_connect accepting_relay_env 4510 = None
   \<and> (\<forall>n. sock_sendall accepting_relay_env n = None)
   \<and> process_queue accepting_relay_env 4510 ''[minion] ''
        [Get (QObject [(''name'', PyStr ''salt''), (''msg'', PyStr ''up'')]),
         Get (QObject [(''msg'', PyStr ''down''), (''levelno'', PyInt 30)]),
         Get QNone, Get (QObject [(''msg'', PyStr ''late'')])] =
      (Returned,
       \<lparr>forwarded = [[(''name'', PyStr ''salt''), (''msg'', PyStr ''[minion] up'')],
                     [(''msg'', PyStr ''[minion] down''), (''levelno'', PyInt 30)]],
        warnings = [], sendall_calls = 2\<rparr>)"
proof -
  let ?ds = "[[(''name'', PyStr ''salt''), (''msg'', PyStr ''up'')],
              [(''msg'', PyStr ''down''), (''levelno'', PyInt 30)]]"
  have h1: "sock_connect accepting_relay_env 4510 = None"
    by (simp add: accepting_relay_env_def)
  have h2: "\<forall>n. sock_sendall accepting_relay_env n = None"
    by (simp add: accepting_relay_env_def)
  have h3: "\<forall>d \<in> set ?ds. has_str_msg d
      \<and> msgpack_dumps accepting_relay_env (prefixed ''[minion] '' d) = Inr (prefixed ''[minion] '' d)"
    by (simp add: accepting_relay_env_def has_str_msg_def)
  show ?thesis
    using process_queue_forwards_well_formed_records
      [OF h1 h2, where ds = ?ds and prefix = "''[minion] ''" and enc = "\<lambda>d. d"
         and rest = "[Get (QObject [(''msg'', PyStr ''late'')])]", OF h3] h1 h2
    by (simp add: prefixed_def)
qed

theorem process_queue_forwards_fewer_counterexample:
  "process_queue broken_relay_env 4510 ''[minion] ''
        [Get (QObject [(''msg'', PyStr ''up'')]), Get (QObject [(''msg'', PyStr ''down'')]),
         Get QNone] =
      (Returned, \<lparr>forwarded = [], warnings = [], sendall_calls = 1\<rparr>)
   \<and> process_queue accepting_relay_env 4510 ''[minion] ''
        [Get (QObject [(''msg'', PyInt 5)]), Get (QObject [(''msg'', PyStr ''down'')]),
         Get QNone] =
      (Returned, \<lparr>forwarded = [[(''msg'', PyStr ''[minion] down'')]],
                  warnings = [OtherException ''TypeError''], sendall_calls = 1\<rparr>)
   \<and> length (forwarded (snd (process_queue broken_relay_env 4510 ''[minion] ''
        [Get (QObject [(''msg'', PyStr ''up'')]), Get (QObject [(''msg'', PyStr ''down'')]),
         Get QNone]))) \<noteq> 2"
  by (simp add: process_queue_def relay0_def try_suite_def str_add_def
      broken_relay_env_def accepting_relay_env_def)

text \<open>
  C7. In the relay loop, when the suite of the \<^verbatim>\<open>try\<close> raises one of \<^verbatim>\<open>IOError\<close>,
  \<^verbatim>\<open>EOFError\<close>, \<^verbatim>\<open>KeyboardInterrupt\<close>, \<^verbatim>\<open>SystemExit\<close>, the loop returns at once, logging
  nothing; when it raises any other exception (a class deriving from \<^verbatim>\<open>Exception\<close>), the
  exception is logged and the loop goes on with the next record. A record whose \<open>msg\<close> is
  not a string, and a record that cannot be encoded, are such cases. So when everything
  raised is one of the four or derives from \<^verbatim>\<open>Exception\<close>, no exception leaves the loop: it
  returns, or waits for the next record.
\<close>

theorem relay_loop_never_propagates:
  assumes "\<forall>e. GetRaises e \<in> set queue \<longrightarrow> stops_relay e \<or> is_Exception e"
    and "\<forall>d e. msgpack_dumps E d = Inl e \<longrightarrow> stops_relay e \<or> is_Exception e"
    and "\<forall>n e. sock_sendall E n = Some e \<longrightarrow> stops_relay e \<or> is_Exception e"
  shows "(fst (relay_loop E prefix queue s) = Returned \<or> fst (relay_loop E prefix queue s) = Blocked)
    \<and> (try_suite E prefix ev s = (Inl e, s') \<and> stops_relay e \<longrightarrow>
          relay_loop E prefix (ev # q) s = (Returned, s') \<and> warnings s' = warnings s)
    \<and> (try_suite E prefix ev s = (Inl e, s') \<and> \<not> stops_relay e \<and> is_Exception e \<longrightarrow>
          relay_loop E prefix (ev # q) s = relay_loop E prefix q (s'\<lparr>warnings := warnings s' @ [e]\<rparr>))
    \<and> (map_of d ''msg'' = Some v \<and> (\<forall>m. v \<noteq> PyStr m) \<longrightarrow>
          relay_loop E prefix (Get (QObject d) # q) s =
            relay_loop E prefix q (s\<lparr>warnings := warnings s @ [OtherException ''TypeError'']\<rparr>))
    \<and> (map_of d ''msg'' = Some (PyStr m) \<and> \<not> stops_relay e \<and> is_Exception e
        \<and> msgpack_dumps E (AList.update ''msg'' (PyStr (prefix @ m)) d) = Inl e \<longrightarrow>
          relay_loop E prefix (Get (QObject d) # q) s =
            relay_loop E prefix q (s\<lparr>warnings := warnings s @ [e]\<rparr>))"
proof -
  have c1: "fst (relay_loop E prefix queue s) = Returned \<or> fst (relay_loop E prefix queue s) = Blocked"
    by (rule relay_loop_exit [OF assms])
  have c2: "try_suite E prefix ev s = (Inl e, s') \<and> stops_relay e \<longrightarrow>
          relay_loop E prefix (ev # q) s = (Returned, s') \<and> warnings s' = warnings s"
    using try_suite_warnings [of E prefix ev s] by auto
  have c3: "try_suite E prefix ev s = (Inl e, s') \<and> \<not> stops_relay e \<and> is_Exception e \<longrightarrow>
          relay_loop E prefix (ev # q) s = relay_loop E prefix q (s'\<lparr>warnings := warnings s' @ [e]\<rparr>)"
    by auto
  have c4: "map_of d ''msg'' = Some v \<and> (\<forall>m. v \<noteq> PyStr m) \<longrightarrow>
          relay_loop E prefix (Get (QObject d) # q) s =
            relay_loop E prefix q (s\<lparr>warnings := warnings s @ [OtherException ''TypeError'']\<rparr>)"
    by (cases v) (simp_all add: try_suite_def str_add_def)
  have c5: "map_of d ''msg'' = Some (PyStr m) \<and> \<not> stops_relay e \<and> is_Exception e
        \<and> msgpack_dumps E (AList.update ''msg'' (PyStr (prefix @ m)) d) = Inl e \<longrightarrow>
          relay_loop E prefix (Get (QObject d) # q) s =
            relay_loop E prefix q (s\<lparr>warnings := warnings s @ [e]\<rparr>)"
    by (simp add: try_suite_def str_add_def)
  from c1 c2 c3 c4 c5 show ?thesis by blast
qed

theorem relay_loop_never_propagates_witness:
  "relay_loop picky_relay_env ''[minion] ''
      [Get (QObject [(''msg'', PyInt 5)]),
       Get (QObject [(''msg'', PyStr ''bad''), (''args'', PyObject)]),
       GetRaises (OtherException ''ValueError''),
       Get (QObject [(''msg'', PyStr ''ok'')]),
       Get (QObject [(''msg'', PyStr ''lost'')]),
       Get QNone] relay0 =
     (Returned, \<lparr>forwarded = [[(''msg'', PyStr ''[minion] ok'')]],
                 warnings = [OtherException ''TypeError'', OtherException ''TypeError'',
                             OtherException ''ValueError''],
                 sendall_calls = 2\<rparr>)
   \<and> relay_loop picky_relay_env ''[minion] ''
      [GetRaises EOFError, Get (QObject [(''msg'', PyStr ''ok'')])] relay0 = (Returned, relay0)"
proof -
  let ?Q = "[Get (QObject [(''msg'', PyInt 5)]),
       Get (QObject [(''msg'', PyStr ''bad''), (''args'', PyObject)]),
       GetRaises (OtherException ''ValueError''),
       Get (QObject [(''msg'', PyStr ''ok'')]),
       Get (QObject [(''msg'', PyStr ''lost'')]),
       Get QNone]"
  have h1: "\<forall>e. GetRaises e \<in> set ?Q \<longrightarrow> stops_relay e \<or> is_Exception e"
    by simp
  have h2: "\<forall>d e. msgpack_dumps picky_relay_env d = Inl e \<longrightarrow> stops_relay e \<or> is_Exception e"
    by (auto simp: picky_relay_env_def split: if_splits)
  have h3: "\<forall>n e. sock_sendall picky_relay_env n = Some e \<longrightarrow> stops_relay e \<or> is_Exception e"
    by (auto simp: picky_relay_env_def split: if_splits)
  have t: "try_suite picky_relay_env ''[minion] '' (GetRaises EOFError) relay0 = (Inl EOFError, relay0)"
    by (simp add: try_suite_def)
  have run: "relay_loop picky_relay_env ''[minion] '' ?Q relay0 =
     (Returned, \<lparr>forwarded = [[(''msg'', PyStr ''[minion] ok'')]],
                 warnings = [OtherException ''TypeError'', OtherException ''TypeError'',
                             OtherException ''ValueError''],
                 sendall_calls = 2\<rparr>)"
    by (simp add: try_suite_def str_add_def picky_relay_env_def relay0_def)
  show ?thesis
    using relay_loop_never_propagates [OF h1 h2 h3, where prefix = "''[minion] ''" and s = relay0
        and ev = "GetRaises EOFError" and e = EOFError and s' = relay0
        and q = "[Get (QObject [(''msg'', PyStr ''ok'')])]"] t run
    by simp
qed

end
